theory Spec2Isabelle
  imports Main "HOL-Library.Word"
begin

section \<open>Snapshot model (package network)\<close>

text \<open>
  The transport core never computes with the coordinates it carries: it stores, copies and
  compares whole snapshots. A Go \<^verbatim>\<open>float64\<close> is therefore its 64-bit IEEE-754 pattern,
  and the zero value is the all-zero pattern.
\<close>

type_synonym float64 = "64 word"

record PlayerState =
  X :: float64
  Y :: float64
  VelocityX :: float64
  VelocityY :: float64
  OnGround :: bool
  FacingRight :: bool

record BulletState =
  bullet_X :: float64
  bullet_Y :: float64
  bullet_VelocityX :: float64

record StateMessage =
  Player :: PlayerState
  Bullets :: "BulletState list"

text \<open>\<^verbatim>\<open>StateMessage{}\<close>: every field zero, the bullet slice nil (no elements).\<close>

definition zero_PlayerState :: PlayerState where
  "zero_PlayerState =
     \<lparr>X = 0, Y = 0, VelocityX = 0, VelocityY = 0, OnGround = False, FacingRight = False\<rparr>"

definition zero_StateMessage :: StateMessage where
  "zero_StateMessage = \<lparr>Player = zero_PlayerState, Bullets = []\<rparr>"

definition defaultSendBufferSize :: nat where
  "defaultSendBufferSize = 8"

section \<open>Errors\<close>

text \<open>
  Go \<^verbatim>\<open>error\<close> values: the two sentinels the package tests for (\<^verbatim>\<open>io.EOF\<close>,
  \<^verbatim>\<open>net.ErrClosed\<close>), any other leaf error, and an error that wraps another one
  (as \<^verbatim>\<open>*net.OpError\<close> does). A nil error is \<open>None\<close>.
\<close>

datatype error = EOF | ErrClosed | Fault string | Wrap string error

text \<open>\<^verbatim>\<open>errors.Is\<close>: the error itself or anything on its unwrap chain equals the target.\<close>

fun errors_Is :: "error \<Rightarrow> error \<Rightarrow> bool" where
  "errors_Is (Wrap s e) t = (Wrap s e = t \<or> errors_Is e t)"
| "errors_Is e t = (e = t)"

text \<open>A run-time panic of the Go runtime; the only one this package can raise.\<close>

datatype panic = SendOnClosedChannel

text \<open>Calls made on the operating system's objects, in the order they are made.\<close>

datatype event = ListenerAccept nat | ListenerClose nat | ConnClose nat

section \<open>Channels and select\<close>

text \<open>
  A \<^verbatim>\<open>select\<close> statement: each alternative is a pair of "this communication can
  proceed" and what happens when it is chosen. Among the ready alternatives the runtime
  picks one pseudo-randomly; \<open>pick\<close> is that choice. With no alternative ready the
  \<^verbatim>\<open>default\<close> branch runs.
\<close>

definition select :: "nat \<Rightarrow> (bool \<times> 'a) list \<Rightarrow> 'a \<Rightarrow> 'a" where
  "select pick alts dflt =
     (let ready = map snd (filter fst alts)
      in if ready = [] then dflt else ready ! (pick mod length ready))"

section \<open>Peer\<close>

text \<open>
  \<open>sendCh\<close> holds the buffered, not yet received snapshots, oldest first;
  \<open>sendCh_closed\<close> and \<open>closed\<close> say whether \<^verbatim>\<open>close\<close> was called on the two
  channels; \<open>closeFn\<close> is the \<^verbatim>\<open>sync.Once\<close> having run; \<open>conn\<close> is the handle
  of the connection.
\<close>

record peer =
  conn :: nat
  sendCh :: "StateMessage list"
  sendCh_closed :: bool
  closed :: bool
  closeFn :: bool
  latest :: StateMessage
  hasData :: bool
  err :: "error option"

definition newPeer :: "nat \<Rightarrow> peer" where
  "newPeer c =
     \<lparr>conn = c, sendCh = [], sendCh_closed = False, closed = False, closeFn = False,
      latest = zero_StateMessage, hasData = False, err = None\<rparr>"

definition getErr :: "peer \<Rightarrow> error option" where
  "getErr p = err p"

definition setErr :: "peer \<Rightarrow> error option \<Rightarrow> peer" where
  "setErr p e =
     (case e of
        None \<Rightarrow> p
      | Some x \<Rightarrow> (if err p = None then p\<lparr>err := Some x\<rparr> else p))"

text \<open>
  \<^verbatim>\<open>peer.close\<close>; \<open>cres\<close> is what \<^verbatim>\<open>conn.Close()\<close> returns if it is called.
  The result is the returned error, the peer afterwards and the calls made.
\<close>

definition peer_close :: "peer \<Rightarrow> error option \<Rightarrow> error option \<times> peer \<times> event list" where
  "peer_close p cres =
     (if closeFn p then (None, p, [])
      else (cres, p\<lparr>closeFn := True, closed := True, sendCh_closed := True\<rparr>,
            [ConnClose (conn p)]))"

definition latestState :: "peer \<Rightarrow> StateMessage \<times> bool" where
  "latestState p = (if \<not> hasData p then (zero_StateMessage, False) else (latest p, True))"

subsection \<open>Channel operations on \<open>sendCh\<close>\<close>

text \<open>A send can proceed when the buffer has room; on a closed channel it proceeds by panicking.\<close>

definition send_ready :: "peer \<Rightarrow> bool" where
  "send_ready p = (sendCh_closed p \<or> length (sendCh p) < defaultSendBufferSize)"

definition recv_ready :: "peer \<Rightarrow> bool" where
  "recv_ready p = (sendCh_closed p \<or> sendCh p \<noteq> [])"

definition chan_send :: "peer \<Rightarrow> StateMessage \<Rightarrow> panic + peer" where
  "chan_send p state =
     (if sendCh_closed p then Inl SendOnClosedChannel
      else Inr (p\<lparr>sendCh := sendCh p @ [state]\<rparr>))"

definition chan_recv :: "peer \<Rightarrow> peer" where
  "chan_recv p = p\<lparr>sendCh := drop 1 (sendCh p)\<rparr>"

text \<open>
  The writer goroutine runs beside \<^verbatim>\<open>send\<close>: between two statements of \<^verbatim>\<open>send\<close> it
  may have received \<open>k\<close> more snapshots from the channel (\<^verbatim>\<open>msg, ok := <-p.sendCh\<close>
  in \<^verbatim>\<open>writeLoop\<close>).
\<close>

definition writer_takes :: "nat \<Rightarrow> peer \<Rightarrow> peer" where
  "writer_takes k p = p\<lparr>sendCh := drop k (sendCh p)\<rparr>"

subsection \<open>\<^verbatim>\<open>peer.send\<close>\<close>

text \<open>
  The scheduling of one call: the runtime's pick in each of the three \<^verbatim>\<open>select\<close>
  statements, and how many snapshots the writer receives between the first and the second,
  and between the second and the third.
\<close>

record sched =
  pick1 :: nat
  pick2 :: nat
  pick3 :: nat
  drain1 :: nat
  drain2 :: nat

text \<open>
  What a call that returns leaves behind: the returned error, the snapshots that
  \<^verbatim>\<open>send\<close> itself received from the queue and threw away, and the peer.
\<close>

record send_result =
  ret :: "error option"
  evicted :: "StateMessage list"
  after :: peer

definition send_done :: "peer \<Rightarrow> StateMessage \<Rightarrow> StateMessage list \<Rightarrow> panic + send_result" where
  "send_done p state ev =
     (case chan_send p state of
        Inl x \<Rightarrow> Inl x
      | Inr p' \<Rightarrow> Inr \<lparr>ret = None, evicted = ev, after = p'\<rparr>)"

definition send :: "peer \<Rightarrow> StateMessage \<Rightarrow> sched \<Rightarrow> panic + send_result" where
  "send p state s =
     select (pick1 s)
       [(closed p, Inr \<lparr>ret = getErr p, evicted = [], after = p\<rparr>),
        (send_ready p, send_done p state [])]
       (let p1 = writer_takes (drain1 s) p;
            (ev, p2) =
               select (pick2 s)
                 [(closed p1, (None, p1)),
                  (recv_ready p1, (Some (take 1 (sendCh p1)), chan_recv p1))]
                 (Some [], p1)
        in case ev of
             None \<Rightarrow> Inr \<lparr>ret = getErr p2, evicted = [], after = p2\<rparr>
           | Some dropped \<Rightarrow>
               (let p3 = writer_takes (drain2 s) p2
                in select (pick3 s)
                     [(closed p3, Inr \<lparr>ret = getErr p3, evicted = dropped, after = p3\<rparr>),
                      (send_ready p3, send_done p3 state dropped)]
                     (Inr \<lparr>ret = None, evicted = dropped, after = p3\<rparr>)))"

subsection \<open>\<^verbatim>\<open>peer.readLoop\<close> and \<^verbatim>\<open>peer.writeLoop\<close>\<close>

text \<open>
  What successive calls of \<^verbatim>\<open>decoder.Decode\<close> give: a complete snapshot or an error.
  The loop runs over the outcomes that have arrived so far; with none left it is waiting
  inside \<^verbatim>\<open>Decode\<close>. \<open>cres\<close> is what \<^verbatim>\<open>conn.Close()\<close> returns if it is called.
\<close>

datatype decoded = Decoded StateMessage | DecodeFail error

fun readLoop :: "peer \<Rightarrow> decoded list \<Rightarrow> error option \<Rightarrow> peer \<times> event list" where
  "readLoop p [] cres = (p, [])"
| "readLoop p (Decoded msg # rest) cres =
     readLoop (p\<lparr>latest := msg, hasData := True\<rparr>) rest cres"
| "readLoop p (DecodeFail e # rest) cres =
     snd (peer_close (if \<not> errors_Is e EOF then setErr p (Some e) else setErr p (Some EOF)) cres)"

text \<open>
  One round of the writer per element: the runtime's pick in its \<^verbatim>\<open>select\<close> and what
  \<^verbatim>\<open>encoder.Encode\<close> returns for the snapshot received in that round. The result also
  lists the snapshots written to the wire. This \<^verbatim>\<open>select\<close> has no default branch: with
  nothing ready the writer waits.
\<close>

fun writeLoop ::
  "peer \<Rightarrow> (nat \<times> error option) list \<Rightarrow> error option \<Rightarrow> peer \<times> StateMessage list \<times> event list"
where
  "writeLoop p [] cres = (p, [], [])"
| "writeLoop p ((pick, enc) # rest) cres =
     select pick
       [(closed p, (p, [], [])),
        (recv_ready p,
         (case sendCh p of
            [] \<Rightarrow> (p, [], [])
          | msg # q \<Rightarrow>
              (case enc of
                 Some e \<Rightarrow>
                   (let (r, p', ev) = peer_close (setErr (chan_recv p) (Some e)) cres
                    in (p', [], ev))
               | None \<Rightarrow>
                   (let (p', out, ev) = writeLoop (chan_recv p) rest cres
                    in (p', msg # out, ev)))))]
       (p, [], [])"

section \<open>Manager\<close>

text \<open>
  \<open>m_listener\<close> is the handle of the listener still referenced; \<open>m_closeOnce\<close> is the
  \<^verbatim>\<open>sync.Once\<close> having run; \<open>m_closed\<close> is the \<^verbatim>\<open>closed\<close> channel being closed.
  A \<^verbatim>\<open>*Manager\<close> is a \<open>Manager option\<close>, \<open>None\<close> the nil pointer.
\<close>

record Manager =
  m_peer :: "peer option"
  m_listener :: "nat option"
  m_closeOnce :: bool
  m_closed :: bool
  m_err :: "error option"

definition newManager :: "peer option \<Rightarrow> Manager" where
  "newManager initialPeer =
     \<lparr>m_peer = initialPeer, m_listener = None, m_closeOnce = False, m_closed = False,
      m_err = None\<rparr>"

text \<open>
  \<^verbatim>\<open>Host\<close> and \<^verbatim>\<open>Join\<close>; the argument is what \<^verbatim>\<open>net.Listen\<close>, respectively
  \<^verbatim>\<open>net.DialTimeout\<close>, returns. \<^verbatim>\<open>Host\<close> also starts \<open>acceptOnce\<close> as a goroutine.
\<close>

definition Host :: "error + nat \<Rightarrow> error + Manager" where
  "Host listened =
     (case listened of
        Inl e \<Rightarrow> Inl e
      | Inr l \<Rightarrow> Inr ((newManager None)\<lparr>m_listener := Some l\<rparr>))"

definition Join :: "error + nat \<Rightarrow> error + Manager" where
  "Join dialled =
     (case dialled of
        Inl e \<Rightarrow> Inl e
      | Inr c \<Rightarrow> Inr (newManager (Some (newPeer c))))"

definition getPeer :: "Manager \<Rightarrow> peer option" where
  "getPeer m = m_peer m"

definition getListener :: "Manager \<Rightarrow> nat option" where
  "getListener m = m_listener m"

definition swapListener :: "Manager \<Rightarrow> nat option \<Rightarrow> nat option \<times> Manager" where
  "swapListener m next = (m_listener m, m\<lparr>m_listener := next\<rparr>)"

definition Manager_setErr :: "Manager \<Rightarrow> error option \<Rightarrow> Manager" where
  "Manager_setErr m e =
     (case e of
        None \<Rightarrow> m
      | Some x \<Rightarrow> (if m_err m = None then m\<lparr>m_err := Some x\<rparr> else m))"

definition Manager_getErr :: "Manager \<Rightarrow> error option" where
  "Manager_getErr m = m_err m"

definition isClosed :: "Manager \<Rightarrow> bool" where
  "isClosed m = m_closed m"

text \<open>\<^verbatim>\<open>Manager.Send\<close>: first the part after the nil check, then the method on a pointer.\<close>

definition Send :: "Manager \<Rightarrow> StateMessage \<Rightarrow> sched \<Rightarrow> panic + error option \<times> Manager" where
  "Send m state s =
     (case getPeer m of
        Some p \<Rightarrow>
          (case send p state s of
             Inl x \<Rightarrow> Inl x
           | Inr r \<Rightarrow> Inr (ret r, m\<lparr>m_peer := Some (after r)\<rparr>))
      | None \<Rightarrow> Inr (None, m))"

definition Manager_Send ::
  "Manager option \<Rightarrow> StateMessage \<Rightarrow> sched \<Rightarrow> panic + error option \<times> Manager option"
where
  "Manager_Send mp state s =
     (case mp of
        None \<Rightarrow> Inr (None, None)
      | Some m \<Rightarrow>
          (case Send m state s of
             Inl x \<Rightarrow> Inl x
           | Inr (e, m') \<Rightarrow> Inr (e, Some m')))"

definition Manager_LatestState :: "Manager option \<Rightarrow> StateMessage \<times> bool" where
  "Manager_LatestState mp =
     (case mp of
        None \<Rightarrow> (zero_StateMessage, False)
      | Some m \<Rightarrow>
          (case getPeer m of
             Some p \<Rightarrow> latestState p
           | None \<Rightarrow> (zero_StateMessage, False)))"

definition Manager_Err :: "Manager option \<Rightarrow> error option" where
  "Manager_Err mp =
     (case mp of
        None \<Rightarrow> None
      | Some m \<Rightarrow>
          (case Manager_getErr m of
             Some e \<Rightarrow> Some e
           | None \<Rightarrow>
               (case getPeer m of
                  Some p \<Rightarrow> getErr p
                | None \<Rightarrow> None)))"

text \<open>
  \<^verbatim>\<open>Manager.Close\<close>; \<open>lres\<close> and \<open>cres\<close> are what \<^verbatim>\<open>listener.Close()\<close> and
  \<^verbatim>\<open>conn.Close()\<close> return if they are called. The result is the returned error, the
  Manager afterwards and the calls made. \<open>Close\<close> is the part after the nil check.
\<close>

definition Close ::
  "Manager \<Rightarrow> error option \<Rightarrow> error option \<Rightarrow> error option \<times> Manager \<times> event list"
where
  "Close m lres cres =
     (if m_closeOnce m then (None, m, [])
      else
        (let m0 = m\<lparr>m_closeOnce := True, m_closed := True\<rparr>;
             (listener, m1) = swapListener m0 None;
             (result1, ev1) =
               (case listener of
                  None \<Rightarrow> (None, [])
                | Some l \<Rightarrow>
                    (case lres of
                       None \<Rightarrow> (None, [ListenerClose l])
                     | Some e \<Rightarrow>
                         (if \<not> errors_Is e ErrClosed then (Some e, [ListenerClose l])
                          else (None, [ListenerClose l]))))
         in case getPeer m1 of
              None \<Rightarrow> (result1, m1, ev1)
            | Some p \<Rightarrow>
                (let (perr, p', ev2) = peer_close p cres
                 in ((case perr of
                        None \<Rightarrow> result1
                      | Some e \<Rightarrow>
                          (if result1 = None \<and> \<not> errors_Is e ErrClosed then Some e
                           else result1)),
                     m1\<lparr>m_peer := Some p'\<rparr>, ev1 @ ev2))))"

definition Manager_Close ::
  "Manager option \<Rightarrow> error option \<Rightarrow> error option \<Rightarrow>
     error option \<times> Manager option \<times> event list"
where
  "Manager_Close mp lres cres =
     (case mp of
        None \<Rightarrow> (None, None, [])
      | Some m \<Rightarrow> (let (r, m', ev) = Close m lres cres in (r, Some m', ev)))"

text \<open>
  \<^verbatim>\<open>Manager.acceptOnce\<close>; \<open>accepted\<close> is what \<^verbatim>\<open>listener.Accept()\<close> returns if it
  is called, \<open>cres\<close> what closing the accepted connection returns. The deferred
  \<^verbatim>\<open>listener.Close()\<close> is the last call of every path that got a listener.
\<close>

definition acceptOnce :: "Manager \<Rightarrow> error + nat \<Rightarrow> error option \<Rightarrow> Manager \<times> event list" where
  "acceptOnce m accepted cres =
     (case getListener m of
        None \<Rightarrow> (m, [])
      | Some l \<Rightarrow>
          (case accepted of
             Inl e \<Rightarrow>
               ((if \<not> errors_Is e ErrClosed then Manager_setErr m (Some e) else m),
                [ListenerAccept l, ListenerClose l])
           | Inr c \<Rightarrow>
               (if isClosed m then (m, [ListenerAccept l, ConnClose c, ListenerClose l])
                else
                  (let newPeer' = newPeer c
                   in if m_peer m \<noteq> None
                      then (m, [ListenerAccept l] @ snd (snd (peer_close newPeer' cres))
                                @ [ListenerClose l])
                      else (m\<lparr>m_peer := Some newPeer'\<rparr>,
                            [ListenerAccept l, ListenerClose l])))))"

section \<open>The wire format\<close>

text \<open>
  Modelled from the spec: the serializer of \<^verbatim>\<open>writeLoop\<close> and the decoder of
  \<^verbatim>\<open>readLoop\<close> are Go's \<^verbatim>\<open>encoding/json\<close>, which is not part of the repository. The
  definitions of this section follow the specification's wire record (one self-delimiting
  record per snapshot: a player object and an ordered bullet array) and the documentation of
  the package for the struct types above: an object member per exported field, named as the
  field; floating-point values as JSON numbers, NaN and the infinities refused with an
  unsupported-value error; on decoding, members matched to fields without regard to the
  case of ASCII letters, unknown members skipped, \<^verbatim>\<open>null\<close> leaving a field as it is, an
  array replacing a slice element by element, and any other mismatch of types an error.
\<close>

text \<open>
  Modelled from the spec: a JSON value as the decoder reads it. A number is given by the
  \<^verbatim>\<open>float64\<close> that its decimal text denotes: the encoder writes the shortest decimal that
  reads back as the same \<^verbatim>\<open>float64\<close>, sign of zero included. (A number whose text is
  out of the range of \<^verbatim>\<open>float64\<close> is a decode error, a \<open>DecodeFail\<close> of \<open>readLoop\<close>.)
\<close>

datatype json =
  JNull
| JBool bool
| JNumber float64
| JString string
| JArray "json list"
| JObject "(string \<times> json) list"

text \<open>
  Modelled from the spec: a \<^verbatim>\<open>float64\<close> is finite unless its eleven exponent bits are
  all set; then it is a NaN when a fraction bit is set and an infinity otherwise.
\<close>

definition is_finite :: "float64 \<Rightarrow> bool" where
  "is_finite f = (take_bit 11 (drop_bit 52 f) \<noteq> 2047)"

text \<open>Modelled from the spec: the \<^verbatim>\<open>UnsupportedValueError\<close> of the encoder.\<close>

definition unsupported_value :: "float64 \<Rightarrow> error" where
  "unsupported_value f =
     Fault (''json: unsupported value: '' @
            (if take_bit 52 f \<noteq> 0 then ''NaN'' else if bit f 63 then ''-Inf'' else ''+Inf''))"

text \<open>Modelled from the spec: the encoder on a \<^verbatim>\<open>float64\<close>.\<close>

definition encode_float :: "float64 \<Rightarrow> error + json" where
  "encode_float f = (if is_finite f then Inr (JNumber f) else Inl (unsupported_value f))"

text \<open>Modelled from the spec: the encoder on the floating-point fields of a struct, in order.\<close>

fun encode_fields :: "(string \<times> float64) list \<Rightarrow> error + (string \<times> json) list" where
  "encode_fields [] = Inr []"
| "encode_fields ((k, f) # rest) =
     (case encode_float f of
        Inl e \<Rightarrow> Inl e
      | Inr j \<Rightarrow>
          (case encode_fields rest of
             Inl e \<Rightarrow> Inl e
           | Inr js \<Rightarrow> Inr ((k, j) # js)))"

text \<open>Modelled from the spec: the encoder on a \<^verbatim>\<open>PlayerState\<close>.\<close>

definition encode_PlayerState :: "PlayerState \<Rightarrow> error + json" where
  "encode_PlayerState ps =
     (case encode_fields
             [(''X'', X ps), (''Y'', Y ps), (''VelocityX'', VelocityX ps),
              (''VelocityY'', VelocityY ps)] of
        Inl e \<Rightarrow> Inl e
      | Inr ms \<Rightarrow>
          Inr (JObject (ms @ [(''OnGround'', JBool (OnGround ps)),
                              (''FacingRight'', JBool (FacingRight ps))])))"

text \<open>Modelled from the spec: the encoder on a \<^verbatim>\<open>BulletState\<close>.\<close>

definition encode_BulletState :: "BulletState \<Rightarrow> error + json" where
  "encode_BulletState b =
     (case encode_fields
             [(''X'', bullet_X b), (''Y'', bullet_Y b), (''VelocityX'', bullet_VelocityX b)] of
        Inl e \<Rightarrow> Inl e
      | Inr ms \<Rightarrow> Inr (JObject ms))"

text \<open>Modelled from the spec: the encoder on the elements of the bullet slice, in order.\<close>

fun encode_Bullets :: "BulletState list \<Rightarrow> error + json list" where
  "encode_Bullets [] = Inr []"
| "encode_Bullets (b # bs) =
     (case encode_BulletState b of
        Inl e \<Rightarrow> Inl e
      | Inr j \<Rightarrow>
          (case encode_Bullets bs of
             Inl e \<Rightarrow> Inl e
           | Inr js \<Rightarrow> Inr (j # js)))"

text \<open>
  Modelled from the spec: \<^verbatim>\<open>encoder.Encode(&msg)\<close> as far as the record goes. A slice
  without elements is written as an array without elements (the game builds its bullet
  slice with \<^verbatim>\<open>make\<close>; a nil slice is written as \<^verbatim>\<open>null\<close>, which the decoder below
  reads back as a slice without elements as well).
\<close>

definition Encode :: "StateMessage \<Rightarrow> error + json" where
  "Encode msg =
     (case encode_PlayerState (Player msg) of
        Inl e \<Rightarrow> Inl e
      | Inr pj \<Rightarrow>
          (case encode_Bullets (Bullets msg) of
             Inl e \<Rightarrow> Inl e
           | Inr bjs \<Rightarrow> Inr (JObject [(''Player'', pj), (''Bullets'', JArray bjs)])))"

text \<open>Modelled from the spec: the decoder's error for a value of the wrong JSON type.\<close>

definition type_error :: "string \<Rightarrow> error" where
  "type_error t = Fault (''json: cannot unmarshal into Go value of type '' @ t)"

text \<open>
  Modelled from the spec: the decoder's comparison of a member name with a field name,
  upper-case ASCII letters taken as their lower-case ones.
\<close>

definition lower :: "char \<Rightarrow> char" where
  "lower c =
     (let n = of_char c :: nat in if 65 \<le> n \<and> n \<le> 90 then char_of (n + 32) else c)"

definition key_is :: "string \<Rightarrow> string \<Rightarrow> bool" where
  "key_is k name = (map lower k = map lower name)"

text \<open>Modelled from the spec: the decoder on a \<^verbatim>\<open>float64\<close> and on a \<^verbatim>\<open>bool\<close> field.\<close>

fun set_float :: "json \<Rightarrow> float64 \<Rightarrow> error + float64" where
  "set_float (JNumber f) old = Inr f"
| "set_float JNull old = Inr old"
| "set_float j old = Inl (type_error ''float64'')"

fun set_bool :: "json \<Rightarrow> bool \<Rightarrow> error + bool" where
  "set_bool (JBool b) old = Inr b"
| "set_bool JNull old = Inr old"
| "set_bool j old = Inl (type_error ''bool'')"

text \<open>Modelled from the spec: the decoder on the members of a player object, in order.\<close>

fun decode_PlayerState_members ::
  "(string \<times> json) list \<Rightarrow> PlayerState \<Rightarrow> error + PlayerState"
where
  "decode_PlayerState_members [] ps = Inr ps"
| "decode_PlayerState_members ((k, v) # rest) ps =
     (if key_is k ''X'' then
        (case set_float v (X ps) of
           Inl e \<Rightarrow> Inl e
         | Inr f \<Rightarrow> decode_PlayerState_members rest (ps\<lparr>X := f\<rparr>))
      else if key_is k ''Y'' then
        (case set_float v (Y ps) of
           Inl e \<Rightarrow> Inl e
         | Inr f \<Rightarrow> decode_PlayerState_members rest (ps\<lparr>Y := f\<rparr>))
      else if key_is k ''VelocityX'' then
        (case set_float v (VelocityX ps) of
           Inl e \<Rightarrow> Inl e
         | Inr f \<Rightarrow> decode_PlayerState_members rest (ps\<lparr>VelocityX := f\<rparr>))
      else if key_is k ''VelocityY'' then
        (case set_float v (VelocityY ps) of
           Inl e \<Rightarrow> Inl e
         | Inr f \<Rightarrow> decode_PlayerState_members rest (ps\<lparr>VelocityY := f\<rparr>))
      else if key_is k ''OnGround'' then
        (case set_bool v (OnGround ps) of
           Inl e \<Rightarrow> Inl e
         | Inr b \<Rightarrow> decode_PlayerState_members rest (ps\<lparr>OnGround := b\<rparr>))
      else if key_is k ''FacingRight'' then
        (case set_bool v (FacingRight ps) of
           Inl e \<Rightarrow> Inl e
         | Inr b \<Rightarrow> decode_PlayerState_members rest (ps\<lparr>FacingRight := b\<rparr>))
      else decode_PlayerState_members rest ps)"

fun decode_PlayerState :: "json \<Rightarrow> PlayerState \<Rightarrow> error + PlayerState" where
  "decode_PlayerState (JObject ms) ps = decode_PlayerState_members ms ps"
| "decode_PlayerState JNull ps = Inr ps"
| "decode_PlayerState j ps = Inl (type_error ''network.PlayerState'')"

text \<open>Modelled from the spec: the decoder on the members of a bullet object, in order.\<close>

definition zero_BulletState :: BulletState where
  "zero_BulletState = \<lparr>bullet_X = 0, bullet_Y = 0, bullet_VelocityX = 0\<rparr>"

fun decode_BulletState_members ::
  "(string \<times> json) list \<Rightarrow> BulletState \<Rightarrow> error + BulletState"
where
  "decode_BulletState_members [] b = Inr b"
| "decode_BulletState_members ((k, v) # rest) b =
     (if key_is k ''X'' then
        (case set_float v (bullet_X b) of
           Inl e \<Rightarrow> Inl e
         | Inr f \<Rightarrow> decode_BulletState_members rest (b\<lparr>bullet_X := f\<rparr>))
      else if key_is k ''Y'' then
        (case set_float v (bullet_Y b) of
           Inl e \<Rightarrow> Inl e
         | Inr f \<Rightarrow> decode_BulletState_members rest (b\<lparr>bullet_Y := f\<rparr>))
      else if key_is k ''VelocityX'' then
        (case set_float v (bullet_VelocityX b) of
           Inl e \<Rightarrow> Inl e
         | Inr f \<Rightarrow> decode_BulletState_members rest (b\<lparr>bullet_VelocityX := f\<rparr>))
      else decode_BulletState_members rest b)"

fun decode_BulletState :: "json \<Rightarrow> BulletState \<Rightarrow> error + BulletState" where
  "decode_BulletState (JObject ms) b = decode_BulletState_members ms b"
| "decode_BulletState JNull b = Inr b"
| "decode_BulletState j b = Inl (type_error ''network.BulletState'')"

text \<open>
  Modelled from the spec: the decoder on the bullet slice. An array gives a slice with one
  element per array element, each decoded into a zero \<^verbatim>\<open>BulletState\<close>; \<^verbatim>\<open>null\<close> gives
  the nil slice.
\<close>

fun decode_Bullets_elems :: "json list \<Rightarrow> error + BulletState list" where
  "decode_Bullets_elems [] = Inr []"
| "decode_Bullets_elems (j # js) =
     (case decode_BulletState j zero_BulletState of
        Inl e \<Rightarrow> Inl e
      | Inr b \<Rightarrow>
          (case decode_Bullets_elems js of
             Inl e \<Rightarrow> Inl e
           | Inr bs \<Rightarrow> Inr (b # bs)))"

fun decode_Bullets :: "json \<Rightarrow> error + BulletState list" where
  "decode_Bullets (JArray js) = decode_Bullets_elems js"
| "decode_Bullets JNull = Inr []"
| "decode_Bullets j = Inl (type_error ''[]network.BulletState'')"

text \<open>Modelled from the spec: the decoder on the members of a record, in order.\<close>

fun decode_StateMessage_members ::
  "(string \<times> json) list \<Rightarrow> StateMessage \<Rightarrow> error + StateMessage"
where
  "decode_StateMessage_members [] msg = Inr msg"
| "decode_StateMessage_members ((k, v) # rest) msg =
     (if key_is k ''Player'' then
        (case decode_PlayerState v (Player msg) of
           Inl e \<Rightarrow> Inl e
         | Inr ps \<Rightarrow> decode_StateMessage_members rest (msg\<lparr>Player := ps\<rparr>))
      else if key_is k ''Bullets'' then
        (case decode_Bullets v of
           Inl e \<Rightarrow> Inl e
         | Inr bs \<Rightarrow> decode_StateMessage_members rest (msg\<lparr>Bullets := bs\<rparr>))
      else decode_StateMessage_members rest msg)"

text \<open>
  Modelled from the spec: \<^verbatim>\<open>decoder.Decode(&msg)\<close> on one complete record, \<^verbatim>\<open>msg\<close>
  being the fresh zero value that \<^verbatim>\<open>readLoop\<close> declares in each round.
\<close>

fun Decode :: "json \<Rightarrow> error + StateMessage" where
  "Decode (JObject ms) = decode_StateMessage_members ms zero_StateMessage"
| "Decode JNull = Inr zero_StateMessage"
| "Decode j = Inl (type_error ''network.StateMessage'')"

text \<open>
  The two loops on the wire. What \<^verbatim>\<open>encoder.Encode\<close> returns to \<open>writeLoop\<close> for a
  snapshot when the connection takes the bytes; the records a writer puts on the wire for
  the snapshots it receives, up to the first one it cannot encode; and what
  \<^verbatim>\<open>decoder.Decode\<close> gives \<open>readLoop\<close> for a record.
\<close>

definition encode_outcome :: "StateMessage \<Rightarrow> error option" where
  "encode_outcome msg = (case Encode msg of Inl e \<Rightarrow> Some e | Inr j \<Rightarrow> None)"

fun written :: "StateMessage list \<Rightarrow> json list" where
  "written [] = []"
| "written (msg # msgs) = (case Encode msg of Inl e \<Rightarrow> [] | Inr j \<Rightarrow> j # written msgs)"

definition decode_record :: "json \<Rightarrow> decoded" where
  "decode_record j = (case Decode j of Inl e \<Rightarrow> DecodeFail e | Inr msg \<Rightarrow> Decoded msg)"

text \<open>A snapshot all of whose coordinates are finite.\<close>

definition finite_PlayerState :: "PlayerState \<Rightarrow> bool" where
  "finite_PlayerState ps =
     (is_finite (X ps) \<and> is_finite (Y ps) \<and> is_finite (VelocityX ps)
      \<and> is_finite (VelocityY ps))"

definition finite_BulletState :: "BulletState \<Rightarrow> bool" where
  "finite_BulletState b =
     (is_finite (bullet_X b) \<and> is_finite (bullet_Y b) \<and> is_finite (bullet_VelocityX b))"

definition encodable :: "StateMessage \<Rightarrow> bool" where
  "encodable msg = (finite_PlayerState (Player msg) \<and> list_all finite_BulletState (Bullets msg))"

section \<open>Sequences of calls and what the specification speaks of\<close>

text \<open>
  The first fault of a sequence of recorded values, nil ones skipped: the specification's
  "first fault ever recorded".
\<close>

fun first_fault :: "error option list \<Rightarrow> error option" where
  "first_fault [] = None"
| "first_fault (None # es) = first_fault es"
| "first_fault (Some e # es) = Some e"

text \<open>
  The first error of a sequence that is neither nil nor an "already closed" one: the
  specification's "first non-benign error".
\<close>

fun first_non_benign :: "error option list \<Rightarrow> error option" where
  "first_non_benign [] = None"
| "first_non_benign (None # es) = first_non_benign es"
| "first_non_benign (Some e # es) =
     (if errors_Is e ErrClosed then first_non_benign es else Some e)"

text \<open>
  \<^verbatim>\<open>Close\<close> called once per element, each call with its own results of the operating
  system; the returned errors in order, the Manager at the end and all calls made.
\<close>

fun Close_calls ::
  "Manager \<Rightarrow> (error option \<times> error option) list \<Rightarrow> error option list \<times> Manager \<times> event list"
where
  "Close_calls m [] = ([], m, [])"
| "Close_calls m ((lres, cres) # rest) =
     (let (r, m', ev) = Close m lres cres;
          (rs, m'', evs) = Close_calls m' rest
      in (r # rs, m'', ev @ evs))"

text \<open>The number of \<^verbatim>\<open>listener.Accept()\<close> calls among the calls made.\<close>

fun is_accept :: "event \<Rightarrow> bool" where
  "is_accept (ListenerAccept l) = True"
| "is_accept e = False"

definition accept_attempts :: "event list \<Rightarrow> nat" where
  "accept_attempts ev = length (filter is_accept ev)"

text \<open>
  The life of a Manager as the calls that reach it, in the order they take effect: the
  accept task, \<^verbatim>\<open>Close\<close> and \<^verbatim>\<open>Send\<close>. A panic ends it.
\<close>

datatype call =
  CallAcceptOnce "error + nat" "error option"
| CallClose "error option" "error option"
| CallSend StateMessage sched

fun step :: "Manager \<Rightarrow> call \<Rightarrow> panic + Manager" where
  "step m (CallAcceptOnce accepted cres) = Inr (fst (acceptOnce m accepted cres))"
| "step m (CallClose lres cres) = Inr (fst (snd (Close m lres cres)))"
| "step m (CallSend state s) =
     (case Send m state s of Inl x \<Rightarrow> Inl x | Inr (e, m') \<Rightarrow> Inr m')"

fun lifetime :: "Manager \<Rightarrow> call list \<Rightarrow> panic + Manager" where
  "lifetime m [] = Inr m"
| "lifetime m (c # cs) = (case step m c of Inl x \<Rightarrow> Inl x | Inr m' \<Rightarrow> lifetime m' cs)"

text \<open>The connection the Manager is bound to, if any.\<close>

definition bound_conn :: "Manager \<Rightarrow> nat option" where
  "bound_conn m = map_option conn (m_peer m)"

subsection \<open>Concrete states\<close>

definition snapshot :: "nat \<Rightarrow> StateMessage" where
  "snapshot n = \<lparr>Player = zero_PlayerState\<lparr>X := of_nat n\<rparr>, Bullets = []\<rparr>"

definition idle :: sched where
  "idle = \<lparr>pick1 = 0, pick2 = 0, pick3 = 0, drain1 = 0, drain2 = 0\<rparr>"

definition full_peer :: peer where
  "full_peer = (newPeer 1)\<lparr>sendCh := map snapshot [1, 2, 3, 4, 5, 6, 7, 8]\<rparr>"

text \<open>A peer whose reader met a transport fault, and one closed by its owner.\<close>

definition faulted_peer :: peer where
  "faulted_peer =
     fst (readLoop (newPeer 1) [DecodeFail (Fault ''connection reset by peer'')] None)"

definition closed_peer :: peer where
  "closed_peer = fst (snd (peer_close (newPeer 1) None))"

text \<open>A peer with one queued snapshot whose writer failed to encode it.\<close>

definition write_faulted :: peer where
  "write_faulted =
     fst (writeLoop ((newPeer 1)\<lparr>sendCh := [snapshot 1]\<rparr>) [(0, Some (Fault ''broken pipe''))]
            None)"

text \<open>The Manager that \<open>Host\<close> returns for listener 7.\<close>

definition hosted :: Manager where
  "hosted = (newManager None)\<lparr>m_listener := Some 7\<rparr>"

text \<open>The hosting Manager after its accept task got connection 1.\<close>

definition accepted_host :: Manager where
  "accepted_host = fst (acceptOnce hosted (Inr 1) None)"

text \<open>
  The peer closed by its owner, after its reader has met the closed connection.
\<close>

definition closed_then_read :: peer where
  "closed_then_read =
     fst (readLoop closed_peer [DecodeFail (Wrap ''read tcp'' ErrClosed)] None)"

text \<open>
  A snapshot as the game sends it (position 1.0, 2.0, facing right, two bullets), and one
  whose first coordinate is a NaN.
\<close>

definition sample_snapshot :: StateMessage where
  "sample_snapshot =
     \<lparr>Player = \<lparr>X = 0x3FF0000000000000, Y = 0x4000000000000000, VelocityX = 0,
                 VelocityY = 0x8000000000000000, OnGround = False, FacingRight = True\<rparr>,
      Bullets = [\<lparr>bullet_X = 0x4024000000000000, bullet_Y = 0x4000000000000000,
                  bullet_VelocityX = 0x4020000000000000\<rparr>,
                 \<lparr>bullet_X = 0x4034000000000000, bullet_Y = 0x4000000000000000,
                  bullet_VelocityX = 0xC020000000000000\<rparr>]\<rparr>"

definition nan_snapshot :: StateMessage where
  "nan_snapshot =
     \<lparr>Player = zero_PlayerState\<lparr>X := 0x7FF8000000000000\<rparr>, Bullets = []\<rparr>"

section \<open>Select with two alternatives\<close>

lemma select_none: "\<not> b1 \<Longrightarrow> \<not> b2 \<Longrightarrow> select k [(b1, x), (b2, y)] d = d"
  by (simp add: select_def)

lemma select_snd: "\<not> b1 \<Longrightarrow> b2 \<Longrightarrow> select k [(b1, x), (b2, y)] d = y"
  by (simp add: select_def)

lemma select_fst: "b1 \<Longrightarrow> \<not> b2 \<Longrightarrow> select k [(b1, x), (b2, y)] d = x"
  by (simp add: select_def)

lemma select_both:
  assumes b1 and b2
  shows "select k [(b1, x), (b2, y)] d = (if even k then x else y)"
proof -
  have sel: "select k [(b1, x), (b2, y)] d = [x, y] ! (k mod Suc (Suc 0))"
    using assms by (simp add: select_def)
  show ?thesis
  proof (cases "even k")
    case True
    then have "k mod Suc (Suc 0) = 0" by presburger
    with True sel show ?thesis by simp
  next
    case False
    then have "k mod Suc (Suc 0) = 1" by presburger
    with False sel show ?thesis by simp
  qed
qed

lemma select_first_ready: "b1 \<Longrightarrow> select 0 ((b1, x) # alts) d = x"
  by (simp add: select_def)

lemma select_cases:
  "select k [(b1, x), (b2, y)] d = x \<and> b1 \<or> select k [(b1, x), (b2, y)] d = y \<and> b2
     \<or> select k [(b1, x), (b2, y)] d = d \<and> \<not> b1 \<and> \<not> b2"
  by (cases b1; cases b2) (simp_all add: select_none select_snd select_fst select_both)

section \<open>The outbound queue\<close>

text \<open>
  \<open>writer_takes\<close> is what the writer does: while the peer is open, \<open>k\<close> rounds of
  \<open>writeLoop\<close> whose encodings succeed receive the \<open>k\<close> oldest snapshots, in order.
\<close>

lemma writeLoop_takes:
  assumes "\<not> closed p" and "length picks \<le> length (sendCh p)"
  shows "writeLoop p (map (\<lambda>k. (k, None)) picks) cres =
           (writer_takes (length picks) p, take (length picks) (sendCh p), [])"
  using assms
proof (induction picks arbitrary: p)
  case Nil
  then show ?case by (simp add: writer_takes_def)
next
  case (Cons k picks)
  then obtain msg q where q: "sendCh p = msg # q"
    by (cases "sendCh p") auto
  have ready: "recv_ready p"
    using q by (simp add: recv_ready_def)
  have rest: "writeLoop (chan_recv p) (map (\<lambda>k. (k, None)) picks) cres =
      (writer_takes (length picks) (chan_recv p), take (length picks) (sendCh (chan_recv p)), [])"
    using Cons.prems q by (intro Cons.IH) (simp_all add: chan_recv_def)
  show ?case
    using Cons.prems(1) ready q rest
    by (simp add: select_snd writer_takes_def chan_recv_def)
qed

lemma send_full_eq:
  assumes "\<not> closed p" and "\<not> sendCh_closed p"
    and "length (sendCh p) = defaultSendBufferSize"
  shows "send p state s =
           Inr \<lparr>ret = None,
                evicted = take 1 (drop (drain1 s) (sendCh p)),
                after = p\<lparr>sendCh := drop (drain1 s + 1 + drain2 s) (sendCh p) @ [state]\<rparr>\<rparr>"
proof -
  let ?p1 = "writer_takes (drain1 s) p"
  have full: "\<not> send_ready p"
    using assms by (simp add: send_ready_def)
  have first: "send p state s =
      (let (ev, p2) =
             select (pick2 s)
               [(closed ?p1, (None, ?p1)),
                (recv_ready ?p1, (Some (take 1 (sendCh ?p1)), chan_recv ?p1))]
               (Some [], ?p1)
       in case ev of
            None \<Rightarrow> Inr \<lparr>ret = getErr p2, evicted = [], after = p2\<rparr>
          | Some dropped \<Rightarrow>
              (let p3 = writer_takes (drain2 s) p2
               in select (pick3 s)
                    [(closed p3, Inr \<lparr>ret = getErr p3, evicted = dropped, after = p3\<rparr>),
                     (send_ready p3, send_done p3 state dropped)]
                    (Inr \<lparr>ret = None, evicted = dropped, after = p3\<rparr>)))"
    using assms(1) full by (simp add: send_def select_none Let_def)
  show ?thesis
  proof (cases "recv_ready ?p1")
    case True
    then show ?thesis
      using assms unfolding first
      by (simp add: select_snd writer_takes_def chan_recv_def send_ready_def send_done_def
          chan_send_def defaultSendBufferSize_def recv_ready_def add.commute)
  next
    case False
    then show ?thesis
      using assms unfolding first
      by (simp add: select_snd select_none writer_takes_def send_ready_def send_done_def
          chan_send_def defaultSendBufferSize_def recv_ready_def)
  qed
qed

text \<open>
  C1. A call of \<open>send\<close> on an open peer whose queue holds \<open>defaultSendBufferSize\<close>
  snapshots returns nil under every scheduling of the writer. It throws away at most one
  snapshot, one that was queued and that the writer had not received (the oldest such one),
  and the new snapshot ends up last in the queue, which stays within its capacity.
\<close>

theorem send_on_full_queue:
  assumes "\<not> closed p" and "\<not> sendCh_closed p"
    and "length (sendCh p) = defaultSendBufferSize"
  shows "\<exists>r. send p state s = Inr r \<and> ret r = None
           \<and> length (evicted r) \<le> 1
           \<and> evicted r = take 1 (drop (drain1 s) (sendCh p))
           \<and> set (evicted r) \<subseteq> set (sendCh p)
           \<and> sendCh (after r) = drop (drain1 s + 1 + drain2 s) (sendCh p) @ [state]
           \<and> length (sendCh (after r)) \<le> defaultSendBufferSize
           \<and> after r = p\<lparr>sendCh := sendCh (after r)\<rparr>"
proof -
  have sub: "set (take 1 (drop (drain1 s) (sendCh p))) \<subseteq> set (sendCh p)"
    by (meson set_take_subset set_drop_subset subset_trans)
  show ?thesis
    using send_full_eq [OF assms, of state s] sub assms(3)
    by (simp add: defaultSendBufferSize_def)
qed

theorem send_on_full_queue_witness:
  "\<not> closed full_peer \<and> \<not> sendCh_closed full_peer
     \<and> length (sendCh full_peer) = defaultSendBufferSize
     \<and> (\<exists>r. send full_peer (snapshot 9) idle = Inr r \<and> ret r = None
           \<and> evicted r = [snapshot 1]
           \<and> sendCh (after r) = map snapshot [2, 3, 4, 5, 6, 7, 8, 9])
     \<and> (\<exists>r. send full_peer (snapshot 9) (idle\<lparr>drain1 := 3, drain2 := 2\<rparr>) = Inr r
           \<and> ret r = None
           \<and> evicted r = [snapshot 4]
           \<and> sendCh (after r) = map snapshot [7, 8, 9])"
proof -
  have h1: "\<not> closed full_peer"
    by (simp add: full_peer_def newPeer_def)
  have h2: "\<not> sendCh_closed full_peer"
    by (simp add: full_peer_def newPeer_def)
  have h3: "length (sendCh full_peer) = defaultSendBufferSize"
    by (simp add: full_peer_def defaultSendBufferSize_def)
  have q: "sendCh full_peer = map snapshot [1, 2, 3, 4, 5, 6, 7, 8]"
    by (simp add: full_peer_def)
  have writer_idle: "\<exists>r. send full_peer (snapshot 9) idle = Inr r \<and> ret r = None
           \<and> evicted r = [snapshot 1]
           \<and> sendCh (after r) = map snapshot [2, 3, 4, 5, 6, 7, 8, 9]"
    using send_on_full_queue [OF h1 h2 h3, of "snapshot 9" idle]
    by (auto simp add: q idle_def)
  have writer_busy: "\<exists>r. send full_peer (snapshot 9) (idle\<lparr>drain1 := 3, drain2 := 2\<rparr>) = Inr r
           \<and> ret r = None
           \<and> evicted r = [snapshot 4]
           \<and> sendCh (after r) = map snapshot [7, 8, 9]"
    using send_on_full_queue [OF h1 h2 h3, of "snapshot 9" "idle\<lparr>drain1 := 3, drain2 := 2\<rparr>"]
    by (auto simp add: q idle_def)
  show ?thesis
    using h1 h2 h3 writer_idle writer_busy by (intro conjI)
qed

section \<open>What \<open>send\<close> returns\<close>

lemma send_open_returns_nil:
  assumes "\<not> closed p" and "\<not> sendCh_closed p"
  shows "\<exists>r. send p state s = Inr r \<and> ret r = None"
proof (cases "send_ready p")
  case True
  then show ?thesis
    using assms by (simp add: send_def select_snd send_done_def chan_send_def)
next
  case False
  let ?p1 = "writer_takes (drain1 s) p"
  have c1: "\<not> closed ?p1" "\<not> sendCh_closed ?p1"
    using assms by (simp_all add: writer_takes_def)
  obtain ev p2 where sel2:
    "select (pick2 s) [(closed ?p1, (None, ?p1)),
        (recv_ready ?p1, (Some (take 1 (sendCh ?p1)), chan_recv ?p1))] (Some [], ?p1) = (Some ev, p2)"
    and c2: "\<not> closed p2" "\<not> sendCh_closed p2"
    using c1 by (cases "recv_ready ?p1") (simp_all add: select_snd select_none chan_recv_def)
  let ?p3 = "writer_takes (drain2 s) p2"
  have c3: "\<not> closed ?p3" "\<not> sendCh_closed ?p3"
    using c2 by (simp_all add: writer_takes_def)
  have "\<exists>r. select (pick3 s)
           [(closed ?p3, Inr \<lparr>ret = getErr ?p3, evicted = ev, after = ?p3\<rparr>),
            (send_ready ?p3, send_done ?p3 state ev)]
           (Inr \<lparr>ret = None, evicted = ev, after = ?p3\<rparr>) = Inr r \<and> ret r = None"
    using c3 by (cases "send_ready ?p3") (simp_all add: select_snd select_none send_done_def chan_send_def)
  then show ?thesis
    using False assms(1) sel2 by (simp add: send_def select_none Let_def)
qed

lemma closed_writer_takes: "closed (writer_takes k p) = closed p"
  by (simp add: writer_takes_def)

lemma getErr_writer_takes: "getErr (writer_takes k p) = getErr p"
  by (simp add: writer_takes_def getErr_def)

lemma closed_chan_recv: "closed (chan_recv p) = closed p"
  by (simp add: chan_recv_def)

lemma getErr_chan_recv: "getErr (chan_recv p) = getErr p"
  by (simp add: chan_recv_def getErr_def)

lemma send_done_ret: "send_done p state ev = Inr r \<Longrightarrow> ret r = None"
  by (auto simp add: send_done_def split: sum.splits)

lemma send_done_ret': "Inr r = send_done p state ev \<Longrightarrow> ret r = None"
  by (auto simp add: send_done_def split: sum.splits)

lemma send_ret_cases:
  assumes "send p state s = Inr r"
  shows "ret r = None \<or> (closed p \<and> ret r = getErr p)"
proof -
  define p1 where "p1 = writer_takes (drain1 s) p"
  define third where "third = (\<lambda>dropped p2.
     select (pick3 s)
       [(closed (writer_takes (drain2 s) p2),
         Inr \<lparr>ret = getErr (writer_takes (drain2 s) p2), evicted = dropped,
              after = writer_takes (drain2 s) p2\<rparr>),
        (send_ready (writer_takes (drain2 s) p2),
         send_done (writer_takes (drain2 s) p2) state dropped)]
       (Inr \<lparr>ret = None, evicted = dropped, after = writer_takes (drain2 s) p2\<rparr>))"
  define second where "second =
     (case select (pick2 s)
             [(closed p1, (None, p1)),
              (recv_ready p1, (Some (take 1 (sendCh p1)), chan_recv p1))]
             (Some [], p1) of
        (None, p2) \<Rightarrow> Inr \<lparr>ret = getErr p2, evicted = [], after = p2\<rparr>
      | (Some dropped, p2) \<Rightarrow> third dropped p2)"
  have send_eq: "send p state s =
      select (pick1 s)
        [(closed p, Inr \<lparr>ret = getErr p, evicted = [], after = p\<rparr>),
         (send_ready p, send_done p state [])] second"
    by (simp add: send_def second_def third_def p1_def Let_def split: prod.splits option.splits)
  have third_ok: "ret r = None \<or> (closed p2 \<and> ret r = getErr p2)"
    if "third dropped p2 = Inr r" for dropped p2
    using that select_cases [of "pick3 s" "closed (writer_takes (drain2 s) p2)"
        "Inr \<lparr>ret = getErr (writer_takes (drain2 s) p2), evicted = dropped,
              after = writer_takes (drain2 s) p2\<rparr>"
        "send_ready (writer_takes (drain2 s) p2)"
        "send_done (writer_takes (drain2 s) p2) state dropped"
        "Inr \<lparr>ret = None, evicted = dropped, after = writer_takes (drain2 s) p2\<rparr>"]
    unfolding third_def
    by (auto simp add: closed_writer_takes getErr_writer_takes dest: send_done_ret send_done_ret')
  have second_ok: "ret r = None \<or> (closed p \<and> ret r = getErr p)" if "second = Inr r"
    using that select_cases [of "pick2 s" "closed p1" "(None, p1)" "recv_ready p1"
        "(Some (take 1 (sendCh p1)), chan_recv p1)" "(Some [], p1)"]
    unfolding second_def
    by (auto simp add: p1_def closed_writer_takes getErr_writer_takes closed_chan_recv
        getErr_chan_recv dest!: third_ok)
  show ?thesis
    using assms select_cases [of "pick1 s" "closed p"
        "Inr \<lparr>ret = getErr p, evicted = [], after = p\<rparr>" "send_ready p"
        "send_done p state []" second]
    unfolding send_eq
    by (auto dest: send_done_ret send_done_ret' second_ok)
qed

lemma send_closed_pick0:
  assumes "closed p" and "pick1 s = 0"
  shows "send p state s = Inr \<lparr>ret = getErr p, evicted = [], after = p\<rparr>"
  using assms by (simp add: send_def select_def)

lemma Send_ret_cases:
  assumes "Send m state s = Inr (e, m')" and "e \<noteq> None"
  shows "\<exists>p. m_peer m = Some p \<and> closed p \<and> e = getErr p"
  using assms send_ret_cases
  by (fastforce simp add: Send_def getPeer_def split: option.splits sum.splits)


lemma send_done_queue_only: "send_done p state ev = Inr r \<Longrightarrow> after r = p\<lparr>sendCh := sendCh (after r)\<rparr>"
  by (auto simp add: send_done_def chan_send_def split: if_splits)

lemma send_done_queue_only': "Inr r = send_done p state ev \<Longrightarrow> after r = p\<lparr>sendCh := sendCh (after r)\<rparr>"
  by (auto simp add: send_done_def chan_send_def split: if_splits)

lemma send_queue_only:
  assumes "send p state s = Inr r"
  shows "after r = p\<lparr>sendCh := sendCh (after r)\<rparr>"
proof -
  define p1 where "p1 = writer_takes (drain1 s) p"
  define third where "third = (\<lambda>dropped p2.
     select (pick3 s)
       [(closed (writer_takes (drain2 s) p2),
         Inr \<lparr>ret = getErr (writer_takes (drain2 s) p2), evicted = dropped,
              after = writer_takes (drain2 s) p2\<rparr>),
        (send_ready (writer_takes (drain2 s) p2),
         send_done (writer_takes (drain2 s) p2) state dropped)]
       (Inr \<lparr>ret = None, evicted = dropped, after = writer_takes (drain2 s) p2\<rparr>))"
  define second where "second =
     (case select (pick2 s)
             [(closed p1, (None, p1)),
              (recv_ready p1, (Some (take 1 (sendCh p1)), chan_recv p1))]
             (Some [], p1) of
        (None, p2) \<Rightarrow> Inr \<lparr>ret = getErr p2, evicted = [], after = p2\<rparr>
      | (Some dropped, p2) \<Rightarrow> third dropped p2)"
  have send_eq: "send p state s =
      select (pick1 s)
        [(closed p, Inr \<lparr>ret = getErr p, evicted = [], after = p\<rparr>),
         (send_ready p, send_done p state [])] second"
    by (simp add: send_def second_def third_def p1_def Let_def split: prod.splits option.splits)
  have third_ok: "after r = p2\<lparr>sendCh := sendCh (after r)\<rparr>"
    if "third dropped p2 = Inr r" for dropped p2
    using that select_cases [of "pick3 s" "closed (writer_takes (drain2 s) p2)"
        "Inr \<lparr>ret = getErr (writer_takes (drain2 s) p2), evicted = dropped,
              after = writer_takes (drain2 s) p2\<rparr>"
        "send_ready (writer_takes (drain2 s) p2)"
        "send_done (writer_takes (drain2 s) p2) state dropped"
        "Inr \<lparr>ret = None, evicted = dropped, after = writer_takes (drain2 s) p2\<rparr>"]
    unfolding third_def
    by (auto simp add: writer_takes_def dest!: send_done_queue_only send_done_queue_only')
  have second_ok: "after r = p\<lparr>sendCh := sendCh (after r)\<rparr>" if "second = Inr r"
    using that select_cases [of "pick2 s" "closed p1" "(None, p1)" "recv_ready p1"
        "(Some (take 1 (sendCh p1)), chan_recv p1)" "(Some [], p1)"]
    unfolding second_def
    by (auto simp add: p1_def writer_takes_def chan_recv_def dest!: third_ok)
  show ?thesis
    using assms select_cases [of "pick1 s" "closed p"
        "Inr \<lparr>ret = getErr p, evicted = [], after = p\<rparr>" "send_ready p"
        "send_done p state []" second]
    unfolding send_eq
    by (auto dest: send_done_queue_only send_done_queue_only' second_ok)
qed

lemma send_closed_returns:
  assumes "closed p" and "sendCh_closed p" and "send p state s = Inr r"
  shows "r = \<lparr>ret = getErr p, evicted = [], after = p\<rparr>"
proof -
  have ready: "send_ready p"
    using assms(2) by (simp add: send_ready_def)
  have panics: "send_done p state [] = Inl SendOnClosedChannel"
    using assms(2) by (simp add: send_done_def chan_send_def)
  have "send p state s =
      (if even (pick1 s) then Inr \<lparr>ret = getErr p, evicted = [], after = p\<rparr>
       else Inl SendOnClosedChannel)"
    unfolding send_def using assms(1) ready panics by (simp add: select_both)
  then show ?thesis
    using assms(3) by (cases "even (pick1 s)") simp_all
qed

text \<open>
  C2 (as amended). On an open peer \<open>send\<close> returns nil, and so does \<open>Send\<close> on a
  Manager with no peer bound. A non-nil error comes out of \<open>send\<close> only on a closed peer,
  and it is then that peer's sticky error, the one \<open>getErr\<close> reports. On a peer on which
  \<open>peer_close\<close> has run (both channels closed) every call that returns gives back the
  sticky error as it stands and changes nothing; the call that takes the
  \<^verbatim>\<open><-p.closed\<close> branch is such a call.
\<close>

theorem send_error_is_sticky_error_of_closed_peer:
  "(\<not> closed p \<and> \<not> sendCh_closed p \<longrightarrow> (\<exists>r. send p state s = Inr r \<and> ret r = None))
   \<and> (\<forall>r. send p state s = Inr r \<and> ret r \<noteq> None \<longrightarrow> closed p \<and> ret r = getErr p)
   \<and> (closed p \<and> sendCh_closed p \<longrightarrow>
        (\<forall>r. send p state s = Inr r \<longrightarrow> r = \<lparr>ret = getErr p, evicted = [], after = p\<rparr>))
   \<and> (closed p \<and> pick1 s = 0 \<longrightarrow>
        send p state s = Inr \<lparr>ret = getErr p, evicted = [], after = p\<rparr>)
   \<and> (m_peer m = None \<longrightarrow> Send m state s = Inr (None, m))
   \<and> (\<forall>e m'. Send m state s = Inr (e, m') \<and> e \<noteq> None \<longrightarrow>
         (\<exists>q. m_peer m = Some q \<and> closed q \<and> e = getErr q))"
proof -
  have open_nil: "\<not> closed p \<and> \<not> sendCh_closed p \<longrightarrow> (\<exists>r. send p state s = Inr r \<and> ret r = None)"
    using send_open_returns_nil [of p state s] by blast
  have only_closed: "\<forall>r. send p state s = Inr r \<and> ret r \<noteq> None \<longrightarrow> closed p \<and> ret r = getErr p"
    using send_ret_cases [of p state s] by auto
  have all_closed: "closed p \<and> sendCh_closed p \<longrightarrow>
        (\<forall>r. send p state s = Inr r \<longrightarrow> r = \<lparr>ret = getErr p, evicted = [], after = p\<rparr>)"
    using send_closed_returns [of p state s] by blast
  have on_closed: "closed p \<and> pick1 s = 0 \<longrightarrow>
      send p state s = Inr \<lparr>ret = getErr p, evicted = [], after = p\<rparr>"
    using send_closed_pick0 [of p s state] by blast
  have no_peer: "m_peer m = None \<longrightarrow> Send m state s = Inr (None, m)"
    by (simp add: Send_def getPeer_def)
  have facade: "\<forall>e m'. Send m state s = Inr (e, m') \<and> e \<noteq> None \<longrightarrow>
         (\<exists>q. m_peer m = Some q \<and> closed q \<and> e = getErr q)"
    using Send_ret_cases [of m state s] by blast
  show ?thesis
    using open_nil only_closed all_closed on_closed no_peer facade by (intro conjI)
qed

lemma faulted_peer_eq:
  "faulted_peer =
     (newPeer 1)\<lparr>closeFn := True, closed := True, sendCh_closed := True,
                 err := Some (Fault ''connection reset by peer'')\<rparr>"
  by (simp add: faulted_peer_def peer_close_def setErr_def newPeer_def)

lemma send_faulted:
  "send faulted_peer state idle =
       Inr \<lparr>ret = Some (Fault ''connection reset by peer''), evicted = [], after = faulted_peer\<rparr>"
proof -
  have h1: "closed faulted_peer"
    by (simp add: faulted_peer_eq)
  have h3: "getErr faulted_peer = Some (Fault ''connection reset by peer'')"
    by (simp add: faulted_peer_eq getErr_def)
  show ?thesis
    unfolding send_def using h1 h3 by (simp add: idle_def select_first_ready)
qed

lemma closed_then_read_eq:
  "closed_then_read =
     (newPeer 1)\<lparr>closeFn := True, closed := True, sendCh_closed := True,
                 err := Some (Wrap ''read tcp'' ErrClosed)\<rparr>"
  by (simp add: closed_then_read_def closed_peer_def peer_close_def setErr_def newPeer_def)

theorem send_error_is_sticky_error_of_closed_peer_witness:
  "\<not> closed (newPeer 1) \<and> \<not> sendCh_closed (newPeer 1)
   \<and> (\<exists>r. send (newPeer 1) (snapshot 1) idle = Inr r \<and> ret r = None)
   \<and> m_peer hosted = None
   \<and> Send hosted (snapshot 1) idle = Inr (None, hosted)
   \<and> closed faulted_peer \<and> pick1 idle = 0
   \<and> getErr faulted_peer = Some (Fault ''connection reset by peer'')
   \<and> send faulted_peer (snapshot 1) idle =
       Inr \<lparr>ret = Some (Fault ''connection reset by peer''), evicted = [], after = faulted_peer\<rparr>
   \<and> closed closed_then_read \<and> sendCh_closed closed_then_read
   \<and> getErr closed_then_read = Some (Wrap ''read tcp'' ErrClosed)
   \<and> send closed_then_read (snapshot 1) idle =
       Inr \<lparr>ret = Some (Wrap ''read tcp'' ErrClosed), evicted = [], after = closed_then_read\<rparr>"
proof -
  have o1: "\<not> closed (newPeer 1)" and o2: "\<not> sendCh_closed (newPeer 1)"
    by (simp_all add: newPeer_def)
  have n: "m_peer hosted = None"
    by (simp add: hosted_def newManager_def)
  have h1: "closed faulted_peer"
    by (simp add: faulted_peer_eq)
  have h2: "pick1 idle = 0"
    by (simp add: idle_def)
  have h3: "getErr faulted_peer = Some (Fault ''connection reset by peer'')"
    by (simp add: faulted_peer_eq getErr_def)
  have c1: "closed closed_then_read" and c2: "sendCh_closed closed_then_read"
    by (simp_all add: closed_then_read_eq)
  have c3: "getErr closed_then_read = Some (Wrap ''read tcp'' ErrClosed)"
    by (simp add: closed_then_read_eq getErr_def)
  have open_peer: "(\<not> closed (newPeer 1) \<and> \<not> sendCh_closed (newPeer 1) \<longrightarrow>
         (\<exists>r. send (newPeer 1) (snapshot 1) idle = Inr r \<and> ret r = None))
      \<and> (m_peer hosted = None \<longrightarrow> Send hosted (snapshot 1) idle = Inr (None, hosted))"
    using send_error_is_sticky_error_of_closed_peer [of "newPeer 1" "snapshot 1" idle hosted]
    by (elim conjE) (intro conjI)
  have r1: "\<exists>r. send (newPeer 1) (snapshot 1) idle = Inr r \<and> ret r = None"
    using open_peer o1 o2 by blast
  have r2: "Send hosted (snapshot 1) idle = Inr (None, hosted)"
    using open_peer n by blast
  have faulted: "closed faulted_peer \<and> pick1 idle = 0 \<longrightarrow>
        send faulted_peer (snapshot 1) idle =
          Inr \<lparr>ret = getErr faulted_peer, evicted = [], after = faulted_peer\<rparr>"
    using send_error_is_sticky_error_of_closed_peer
            [of faulted_peer "snapshot 1" idle "newManager None"]
    by (elim conjE)
  have r3: "send faulted_peer (snapshot 1) idle =
       Inr \<lparr>ret = Some (Fault ''connection reset by peer''), evicted = [], after = faulted_peer\<rparr>"
    using faulted h1 h2 unfolding h3 by blast
  have after_close: "(closed closed_then_read \<and> sendCh_closed closed_then_read \<longrightarrow>
          (\<forall>r. send closed_then_read (snapshot 1) idle = Inr r \<longrightarrow>
             r = \<lparr>ret = getErr closed_then_read, evicted = [], after = closed_then_read\<rparr>))
      \<and> (closed closed_then_read \<and> pick1 idle = 0 \<longrightarrow>
          send closed_then_read (snapshot 1) idle =
            Inr \<lparr>ret = getErr closed_then_read, evicted = [], after = closed_then_read\<rparr>)"
    using send_error_is_sticky_error_of_closed_peer
            [of closed_then_read "snapshot 1" idle "newManager None"]
    by (elim conjE) (intro conjI)
  have r4: "send closed_then_read (snapshot 1) idle =
       Inr \<lparr>ret = Some (Wrap ''read tcp'' ErrClosed), evicted = [], after = closed_then_read\<rparr>"
    using after_close c1 h2 unfolding c3 by blast
  show ?thesis
    using o1 o2 r1 n r2 h1 h2 h3 r3 c1 c2 c3 r4 by (intro conjI)
qed

text \<open>
  C2, as stated, fails. The reader of a joined Manager's peer meets a connection reset; it
  records the fault and closes the peer. The next \<open>Manager_Send\<close> returns that fault.
\<close>

theorem Manager_Send_after_fault_counterexample:
  "Join (Inr 1) = Inr (newManager (Some (newPeer 1)))
   \<and> Manager_Send (Some (newManager (Some faulted_peer))) (snapshot 1) idle =
       Inr (Some (Fault ''connection reset by peer''), Some (newManager (Some faulted_peer)))"
  by (simp add: Join_def Manager_Send_def Send_def getPeer_def newManager_def send_faulted)

section \<open>A Manager without a peer, and the nil Manager\<close>

text \<open>
  C4. On a Manager with no peer bound, \<open>Manager_LatestState\<close> gives the zero snapshot
  and false, and \<open>Manager_Send\<close> returns nil and the Manager as it was.
\<close>

theorem no_peer_LatestState_Send:
  assumes "m_peer m = None"
  shows "Manager_LatestState (Some m) = (zero_StateMessage, False)
       \<and> Manager_Send (Some m) state s = Inr (None, Some m)"
  using assms by (simp add: Manager_LatestState_def Manager_Send_def Send_def getPeer_def)

theorem no_peer_LatestState_Send_witness:
  "Host (Inr 7) = Inr hosted \<and> m_peer hosted = None
   \<and> Manager_LatestState (Some hosted) = (zero_StateMessage, False)
   \<and> Manager_Send (Some hosted) (snapshot 1) idle = Inr (None, Some hosted)"
proof -
  have h: "m_peer hosted = None"
    by (simp add: hosted_def newManager_def)
  have host: "Host (Inr 7) = Inr hosted"
    by (simp add: Host_def hosted_def)
  show ?thesis
    using no_peer_LatestState_Send [OF h, of "snapshot 1" idle] h host by simp
qed

text \<open>
  C10. On a nil Manager, \<open>Send\<close> returns nil, \<open>LatestState\<close> the zero snapshot and
  false, \<open>Err\<close> nil and \<open>Close\<close> nil; none of them panics or makes a call.
\<close>

theorem nil_Manager_methods:
  "Manager_Send None state s = Inr (None, None)
   \<and> Manager_LatestState None = (zero_StateMessage, False)
   \<and> Manager_Err None = None
   \<and> Manager_Close None lres cres = (None, None, [])"
  by (simp add: Manager_Send_def Manager_LatestState_def Manager_Err_def Manager_Close_def)

section \<open>Sticky errors\<close>

lemma setErr_set: "err p \<noteq> None \<Longrightarrow> setErr p e = p"
  by (cases e) (simp_all add: setErr_def)

lemma foldl_setErr_set: "err p \<noteq> None \<Longrightarrow> foldl setErr p es = p"
  by (induction es) (simp_all add: setErr_set)

lemma foldl_setErr: "foldl setErr p es = p\<lparr>err := first_fault (err p # es)\<rparr>"
proof (induction es arbitrary: p)
  case Nil
  then show ?case by (cases "err p") simp_all
next
  case (Cons e es)
  show ?case
  proof (cases "err p")
    case None
    then show ?thesis
      using Cons [of "setErr p e"] by (cases e) (simp_all add: setErr_def)
  next
    case (Some x)
    then show ?thesis by (simp add: foldl_setErr_set setErr_set)
  qed
qed

lemma Manager_setErr_set: "m_err m \<noteq> None \<Longrightarrow> Manager_setErr m e = m"
  by (cases e) (simp_all add: Manager_setErr_def)

lemma foldl_Manager_setErr_set: "m_err m \<noteq> None \<Longrightarrow> foldl Manager_setErr m es = m"
  by (induction es) (simp_all add: Manager_setErr_set)

lemma foldl_Manager_setErr:
  "foldl Manager_setErr m es = m\<lparr>m_err := first_fault (m_err m # es)\<rparr>"
proof (induction es arbitrary: m)
  case Nil
  then show ?case by (cases "m_err m") simp_all
next
  case (Cons e es)
  show ?case
  proof (cases "m_err m")
    case None
    then show ?thesis
      using Cons [of "Manager_setErr m e"] by (cases e) (simp_all add: Manager_setErr_def)
  next
    case (Some x)
    then show ?thesis by (simp add: foldl_Manager_setErr_set Manager_setErr_set)
  qed
qed

text \<open>
  C6. The sticky error of a peer and of a Manager is written once. \<open>setErr\<close> with nil
  changes nothing; once an error is recorded every later \<open>setErr\<close> changes nothing; after
  any sequence of \<open>setErr\<close> calls the record differs from the initial one at most in the
  error, which is the first fault of the initial error followed by the arguments, and
  \<open>getErr\<close> returns it. \<open>Manager_Err\<close> returns the Manager's first fault, and with none
  recorded the sticky error of the bound peer.
\<close>

theorem sticky_error_write_once:
  "setErr p None = p
   \<and> Manager_setErr m None = m
   \<and> (getErr p \<noteq> None \<longrightarrow> setErr p e = p)
   \<and> (Manager_getErr m \<noteq> None \<longrightarrow> Manager_setErr m e = m)
   \<and> foldl setErr p es = p\<lparr>err := first_fault (err p # es)\<rparr>
   \<and> getErr (foldl setErr p es) = first_fault (getErr p # es)
   \<and> foldl Manager_setErr m es = m\<lparr>m_err := first_fault (m_err m # es)\<rparr>
   \<and> Manager_getErr (foldl Manager_setErr m es) = first_fault (Manager_getErr m # es)
   \<and> Manager_Err (Some (foldl Manager_setErr m es)) =
       (case first_fault (Manager_getErr m # es) of
          Some x \<Rightarrow> Some x
        | None \<Rightarrow> (case m_peer m of Some q \<Rightarrow> getErr q | None \<Rightarrow> None))"
  by (simp add: foldl_setErr foldl_Manager_setErr getErr_def Manager_getErr_def
      setErr_set Manager_setErr_set Manager_Err_def getPeer_def)
    (simp add: setErr_def Manager_setErr_def getPeer_def split: option.splits)

theorem sticky_error_write_once_witness:
  "getErr faulted_peer \<noteq> None
   \<and> setErr faulted_peer (Some EOF) = faulted_peer
   \<and> getErr (foldl setErr faulted_peer [None, Some EOF]) =
       Some (Fault ''connection reset by peer'')
   \<and> Manager_getErr (Manager_setErr hosted (Some (Fault ''accept failed''))) \<noteq> None
   \<and> Manager_setErr (Manager_setErr hosted (Some (Fault ''accept failed''))) (Some EOF) =
       Manager_setErr hosted (Some (Fault ''accept failed''))"
proof -
  let ?m = "Manager_setErr hosted (Some (Fault ''accept failed''))"
  have h1: "getErr faulted_peer \<noteq> None"
    by (simp add: faulted_peer_eq getErr_def)
  have h2: "Manager_getErr ?m \<noteq> None"
    by (simp add: Manager_getErr_def Manager_setErr_def hosted_def newManager_def)
  have g: "getErr faulted_peer = Some (Fault ''connection reset by peer'')"
    by (simp add: faulted_peer_eq getErr_def)
  have "(getErr faulted_peer \<noteq> None \<longrightarrow> setErr faulted_peer (Some EOF) = faulted_peer)
      \<and> (Manager_getErr ?m \<noteq> None \<longrightarrow> Manager_setErr ?m (Some EOF) = ?m)
      \<and> getErr (foldl setErr faulted_peer [None, Some EOF]) =
          first_fault (getErr faulted_peer # [None, Some EOF])"
    using sticky_error_write_once [of faulted_peer ?m "Some EOF" "[None, Some EOF]"]
    by (elim conjE) (intro conjI)
  then show ?thesis
    using h1 h2 by (simp add: g)
qed

section \<open>Close\<close>

lemma Close_done: "m_closeOnce m \<Longrightarrow> Close m lres cres = (None, m, [])"
  by (simp add: Close_def)

lemma Close_calls_done:
  "m_closeOnce m \<Longrightarrow> Close_calls m calls = (replicate (length calls) None, m, [])"
  by (induction calls) (auto simp add: Close_done)

lemma Close_sets_closeOnce: "m_closeOnce (fst (snd (Close m lres cres)))"
  by (auto simp add: Close_def swapListener_def getPeer_def Let_def
      split: option.splits prod.splits)

lemma Close_first:
  assumes "\<not> m_closeOnce m"
  shows "Close m lres cres =
    (first_non_benign
       ((case m_listener m of None \<Rightarrow> [] | Some l \<Rightarrow> [lres]) @
        (case m_peer m of None \<Rightarrow> [] | Some p \<Rightarrow> [fst (peer_close p cres)])),
     m\<lparr>m_closeOnce := True, m_closed := True, m_listener := None,
        m_peer := map_option (\<lambda>p. fst (snd (peer_close p cres))) (m_peer m)\<rparr>,
     (case m_listener m of None \<Rightarrow> [] | Some l \<Rightarrow> [ListenerClose l]) @
     (case m_peer m of None \<Rightarrow> [] | Some p \<Rightarrow> snd (snd (peer_close p cres))))"
  using assms
  by (cases "m_listener m"; cases "m_peer m"; cases lres; cases cres)
     (auto simp add: Close_def swapListener_def getPeer_def Let_def peer_close_def)

text \<open>
  C5. \<open>Close\<close> is idempotent. Whatever the Manager, after one call the \<^verbatim>\<open>sync.Once\<close>
  has run and every further call returns nil, makes no call on a listener or a connection
  and leaves the Manager as it is; so of any number of calls only the first can return an
  error or tear anything down. On a Manager not yet closed that first call closes the
  listener it holds and the peer it is bound to, each once, and returns the first
  non-benign error among their results (an "already closed" error is skipped).
\<close>

theorem Close_idempotent:
  "case Close m lres cres of
     (r, m', ev) \<Rightarrow>
       m_closeOnce m'
     \<and> (\<forall>lres' cres'. Close m' lres' cres' = (None, m', []))
     \<and> Close_calls m ((lres, cres) # rest) = (r # replicate (length rest) None, m', ev)
     \<and> (m_closeOnce m \<longrightarrow> r = None \<and> m' = m \<and> ev = [])
     \<and> (\<not> m_closeOnce m \<longrightarrow>
          r = first_non_benign
                ((case m_listener m of None \<Rightarrow> [] | Some l \<Rightarrow> [lres]) @
                 (case m_peer m of None \<Rightarrow> [] | Some p \<Rightarrow> [fst (peer_close p cres)]))
        \<and> ev = (case m_listener m of None \<Rightarrow> [] | Some l \<Rightarrow> [ListenerClose l]) @
               (case m_peer m of None \<Rightarrow> [] | Some p \<Rightarrow> snd (snd (peer_close p cres)))
        \<and> m' = m\<lparr>m_closeOnce := True, m_closed := True, m_listener := None,
                  m_peer := map_option (\<lambda>p. fst (snd (peer_close p cres))) (m_peer m)\<rparr>)"
proof -
  obtain r m' ev where c: "Close m lres cres = (r, m', ev)"
    by (cases "Close m lres cres") auto
  have once: "m_closeOnce m'"
    using Close_sets_closeOnce [of m lres cres] c by simp
  have again: "Close m' lres' cres' = (None, m', [])" for lres' cres'
    using once by (rule Close_done)
  have calls: "Close_calls m ((lres, cres) # rest) = (r # replicate (length rest) None, m', ev)"
    using c Close_calls_done [OF once, of rest] by simp
  have was_done: "r = None \<and> m' = m \<and> ev = []" if "m_closeOnce m"
    using that c by (simp add: Close_done)
  have first: "r = first_non_benign
                ((case m_listener m of None \<Rightarrow> [] | Some l \<Rightarrow> [lres]) @
                 (case m_peer m of None \<Rightarrow> [] | Some p \<Rightarrow> [fst (peer_close p cres)]))
        \<and> ev = (case m_listener m of None \<Rightarrow> [] | Some l \<Rightarrow> [ListenerClose l]) @
               (case m_peer m of None \<Rightarrow> [] | Some p \<Rightarrow> snd (snd (peer_close p cres)))
        \<and> m' = m\<lparr>m_closeOnce := True, m_closed := True, m_listener := None,
                  m_peer := map_option (\<lambda>p. fst (snd (peer_close p cres))) (m_peer m)\<rparr>"
    if "\<not> m_closeOnce m"
    using Close_first [OF that, of lres cres] c by simp
  show ?thesis
    unfolding c using once again calls was_done first by simp
qed

lemma accepted_host_eq:
  "accepted_host =
     \<lparr>m_peer = Some (newPeer 1), m_listener = Some 7, m_closeOnce = False, m_closed = False,
      m_err = None\<rparr>"
  by (simp add: accepted_host_def acceptOnce_def hosted_def newManager_def getListener_def
      isClosed_def)

lemma Close_accepted_host:
  "Close accepted_host (Some (Wrap ''close tcp'' ErrClosed)) (Some (Fault ''i/o timeout'')) =
     (Some (Fault ''i/o timeout''),
      \<lparr>m_peer = Some closed_peer, m_listener = None, m_closeOnce = True, m_closed = True,
       m_err = None\<rparr>,
      [ListenerClose 7, ConnClose 1])"
  by (simp add: Close_def accepted_host_eq swapListener_def getPeer_def peer_close_def
      newPeer_def closed_peer_def)

theorem Close_idempotent_witness:
  "\<not> m_closeOnce accepted_host
   \<and> Close_calls accepted_host
        [(Some (Wrap ''close tcp'' ErrClosed), Some (Fault ''i/o timeout'')),
         (Some (Fault ''again''), Some (Fault ''again'')), (None, None)] =
       ([Some (Fault ''i/o timeout''), None, None],
        \<lparr>m_peer = Some closed_peer, m_listener = None, m_closeOnce = True, m_closed = True,
         m_err = None\<rparr>,
        [ListenerClose 7, ConnClose 1])
   \<and> m_closeOnce (fst (snd (Close accepted_host None None)))
   \<and> Close (fst (snd (Close accepted_host None None))) (Some (Fault ''again'')) None =
       (None, fst (snd (Close accepted_host None None)), [])"
proof -
  have h: "\<not> m_closeOnce accepted_host"
    by (simp add: accepted_host_eq)
  have first: "Close_calls accepted_host
        [(Some (Wrap ''close tcp'' ErrClosed), Some (Fault ''i/o timeout'')),
         (Some (Fault ''again''), Some (Fault ''again'')), (None, None)] =
       ([Some (Fault ''i/o timeout''), None, None],
        \<lparr>m_peer = Some closed_peer, m_listener = None, m_closeOnce = True, m_closed = True,
         m_err = None\<rparr>,
        [ListenerClose 7, ConnClose 1])"
    using Close_idempotent [of accepted_host "Some (Wrap ''close tcp'' ErrClosed)"
        "Some (Fault ''i/o timeout'')"
        "[(Some (Fault ''again''), Some (Fault ''again'')), (None, None)]"] h
    unfolding Close_accepted_host by simp
  obtain r m' ev where c: "Close accepted_host None None = (r, m', ev)"
    by (cases "Close accepted_host None None") auto
  have "m_closeOnce m' \<and> (\<forall>lres' cres'. Close m' lres' cres' = (None, m', []))"
    using Close_idempotent [of accepted_host None None "[]"] unfolding c by simp
  then have again: "m_closeOnce m' \<and> Close m' (Some (Fault ''again'')) None = (None, m', [])"
    by blast
  show ?thesis
    using h first again unfolding c by simp
qed

section \<open>The accept task\<close>

lemma acceptOnce_attempts:
  "accept_attempts (snd (acceptOnce m accepted cres)) = (if m_listener m = None then 0 else 1)"
  by (auto simp add: acceptOnce_def getListener_def accept_attempts_def isClosed_def Let_def
      peer_close_def newPeer_def split: option.splits sum.splits)

lemma acceptOnce_no_listener:
  "m_listener m = None \<Longrightarrow> acceptOnce m accepted cres = (m, [])"
  by (simp add: acceptOnce_def getListener_def)

lemma acceptOnce_keeps_peer:
  "m_peer m \<noteq> None \<Longrightarrow> m_peer (fst (acceptOnce m accepted cres)) = m_peer m"
  by (auto simp add: acceptOnce_def getListener_def isClosed_def Let_def Manager_setErr_def
      split: option.splits sum.splits)

lemma acceptOnce_late_conn:
  assumes "m_listener m = Some l" and "m_peer m \<noteq> None \<or> m_closed m"
  shows "acceptOnce m (Inr c) cres =
           (m, [ListenerAccept l, ConnClose c, ListenerClose l])"
  using assms
  by (auto simp add: acceptOnce_def getListener_def isClosed_def Let_def peer_close_def
      newPeer_def)

lemma acceptOnce_binds:
  assumes "m_peer (fst (acceptOnce m accepted cres)) \<noteq> m_peer m"
  shows "m_peer m = None \<and> \<not> m_closed m \<and> m_listener m \<noteq> None
       \<and> (\<exists>c. accepted = Inr c \<and> fst (acceptOnce m accepted cres) = m\<lparr>m_peer := Some (newPeer c)\<rparr>)"
  using assms
  by (auto simp add: acceptOnce_def getListener_def isClosed_def Let_def Manager_setErr_def
      split: option.splits sum.splits if_splits)

lemma acceptOnce_bound_conn:
  "bound_conn m = Some c \<Longrightarrow> bound_conn (fst (acceptOnce m accepted cres)) = Some c"
  using acceptOnce_keeps_peer [of m accepted cres] by (auto simp add: bound_conn_def)

lemma Close_bound_conn: "bound_conn (fst (snd (Close m lres cres))) = bound_conn m"
  by (auto simp add: Close_def swapListener_def getPeer_def Let_def bound_conn_def
      peer_close_def split: option.splits)

lemma Send_bound_conn:
  assumes "Send m state s = Inr (e, m')"
  shows "bound_conn m' = bound_conn m"
proof (cases "m_peer m")
  case None
  then show ?thesis using assms by (simp add: Send_def getPeer_def)
next
  case (Some p)
  then obtain r where r: "send p state s = Inr r" and m': "m' = m\<lparr>m_peer := Some (after r)\<rparr>"
    using assms by (auto simp add: Send_def getPeer_def split: sum.splits)
  from send_queue_only [OF r] have "conn (after r) = conn (p\<lparr>sendCh := sendCh (after r)\<rparr>)"
    by simp
  then show ?thesis using Some m' by (simp add: bound_conn_def)
qed

lemma step_bound_conn:
  assumes "step m c = Inr m'" and "bound_conn m = Some k"
  shows "bound_conn m' = Some k"
proof (cases c)
  case (CallAcceptOnce a cres)
  then show ?thesis using assms acceptOnce_bound_conn [of m k a cres] by auto
next
  case (CallClose l cres)
  then show ?thesis using assms Close_bound_conn [of m l cres] by auto
next
  case (CallSend state s)
  then show ?thesis using assms Send_bound_conn [of m state s]
    by (auto split: sum.splits)
qed

lemma lifetime_bound_conn:
  "lifetime m cs = Inr m' \<Longrightarrow> bound_conn m = Some k \<Longrightarrow> bound_conn m' = Some k"
proof (induction cs arbitrary: m)
  case Nil
  then show ?case by simp
next
  case (Cons c cs)
  then obtain m1 where s: "step m c = Inr m1" and l: "lifetime m1 cs = Inr m'"
    by (auto split: sum.splits)
  from step_bound_conn [OF s Cons.prems(2)] have "bound_conn m1 = Some k" .
  with Cons.IH [OF l] show ?case .
qed

text \<open>
  C7 (as amended). The accept task calls \<^verbatim>\<open>Accept\<close> once when the Manager still holds a
  listener and not at all when it holds none; it never calls it twice. A peer that is bound
  stays bound: the task changes the peer of the Manager only by binding the accepted
  connection to a Manager that has no peer and is not closed, and no sequence of accept
  tasks, \<open>Close\<close> and \<open>Send\<close> calls changes the connection a Manager is bound to. A
  connection accepted while a peer is bound or the Manager is closed is closed at once, and
  the Manager, its peer and its sticky error included, stays as it is.
\<close>

theorem acceptOnce_binds_at_most_one_peer:
  "accept_attempts (snd (acceptOnce m accepted cres)) \<le> 1
   \<and> (m_listener m \<noteq> None \<longrightarrow> accept_attempts (snd (acceptOnce m accepted cres)) = 1)
   \<and> (m_listener m = None \<longrightarrow> acceptOnce m accepted cres = (m, []))
   \<and> (m_peer m \<noteq> None \<longrightarrow> m_peer (fst (acceptOnce m accepted cres)) = m_peer m)
   \<and> (m_peer (fst (acceptOnce m accepted cres)) \<noteq> m_peer m \<longrightarrow>
        m_peer m = None \<and> \<not> m_closed m
        \<and> (\<exists>c. accepted = Inr c
               \<and> fst (acceptOnce m accepted cres) = m\<lparr>m_peer := Some (newPeer c)\<rparr>))
   \<and> (\<forall>l c. m_listener m = Some l \<and> (m_peer m \<noteq> None \<or> m_closed m) \<longrightarrow>
          acceptOnce m (Inr c) cres = (m, [ListenerAccept l, ConnClose c, ListenerClose l]))
   \<and> (\<forall>calls m' k. lifetime m calls = Inr m' \<and> bound_conn m = Some k \<longrightarrow>
          bound_conn m' = Some k)"
proof -
  have a: "accept_attempts (snd (acceptOnce m accepted cres)) \<le> 1"
    by (simp add: acceptOnce_attempts)
  have b: "m_listener m \<noteq> None \<longrightarrow> accept_attempts (snd (acceptOnce m accepted cres)) = 1"
    by (simp add: acceptOnce_attempts)
  have c: "m_listener m = None \<longrightarrow> acceptOnce m accepted cres = (m, [])"
    by (simp add: acceptOnce_no_listener)
  have d: "m_peer m \<noteq> None \<longrightarrow> m_peer (fst (acceptOnce m accepted cres)) = m_peer m"
    using acceptOnce_keeps_peer [of m accepted cres] by blast
  have e: "m_peer (fst (acceptOnce m accepted cres)) \<noteq> m_peer m \<longrightarrow>
        m_peer m = None \<and> \<not> m_closed m
        \<and> (\<exists>c. accepted = Inr c
               \<and> fst (acceptOnce m accepted cres) = m\<lparr>m_peer := Some (newPeer c)\<rparr>)"
    using acceptOnce_binds [of m accepted cres] by blast
  have f: "\<forall>l c. m_listener m = Some l \<and> (m_peer m \<noteq> None \<or> m_closed m) \<longrightarrow>
          acceptOnce m (Inr c) cres = (m, [ListenerAccept l, ConnClose c, ListenerClose l])"
    using acceptOnce_late_conn [of m _ _ cres] by blast
  have g: "\<forall>calls m' k. lifetime m calls = Inr m' \<and> bound_conn m = Some k \<longrightarrow>
          bound_conn m' = Some k"
    using lifetime_bound_conn [of m] by blast
  show ?thesis
    using a b c d e f g by (intro conjI)
qed

lemma acceptOnce_second_conn:
  "acceptOnce accepted_host (Inr 2) None =
     (accepted_host, [ListenerAccept 7, ConnClose 2, ListenerClose 7])"
  by (simp add: acceptOnce_late_conn accepted_host_eq)

lemma send_newPeer:
  "send (newPeer c) state idle =
     Inr \<lparr>ret = None, evicted = [], after = (newPeer c)\<lparr>sendCh := [state]\<rparr>\<rparr>"
  unfolding send_def
  by (simp add: select_snd newPeer_def send_ready_def send_done_def chan_send_def
      defaultSendBufferSize_def)

lemma lifetime_accepted_host:
  "lifetime accepted_host
     [CallAcceptOnce (Inr 2) None, CallSend (snapshot 1) idle, CallClose None None] =
   Inr \<lparr>m_peer = Some (closed_peer\<lparr>sendCh := [snapshot 1]\<rparr>), m_listener = None,
        m_closeOnce = True, m_closed = True, m_err = None\<rparr>"
proof -
  let ?m2 = "accepted_host\<lparr>m_peer := Some ((newPeer 1)\<lparr>sendCh := [snapshot 1]\<rparr>)\<rparr>"
  have mp: "m_peer accepted_host = Some (newPeer 1)"
    by (simp add: accepted_host_eq)
  have a1: "step accepted_host (CallAcceptOnce (Inr 2) None) = Inr accepted_host"
    by (simp add: acceptOnce_second_conn)
  have a2: "step accepted_host (CallSend (snapshot 1) idle) = Inr ?m2"
    by (simp add: Send_def getPeer_def mp send_newPeer)
  have a3: "step ?m2 (CallClose None None) =
      Inr \<lparr>m_peer = Some (closed_peer\<lparr>sendCh := [snapshot 1]\<rparr>), m_listener = None,
           m_closeOnce = True, m_closed = True, m_err = None\<rparr>"
    by (simp add: accepted_host_eq Close_def swapListener_def getPeer_def peer_close_def
        newPeer_def closed_peer_def)
  show ?thesis
    by (simp only: lifetime.simps a1 a2 a3 sum.case)
qed

theorem acceptOnce_binds_at_most_one_peer_witness:
  "m_listener accepted_host = Some 7 \<and> m_peer accepted_host \<noteq> None
   \<and> bound_conn accepted_host = Some 1
   \<and> accept_attempts (snd (acceptOnce accepted_host (Inr 2) None)) = 1
   \<and> acceptOnce accepted_host (Inr 2) None =
       (accepted_host, [ListenerAccept 7, ConnClose 2, ListenerClose 7])
   \<and> bound_conn \<lparr>m_peer = Some (closed_peer\<lparr>sendCh := [snapshot 1]\<rparr>), m_listener = None,
                  m_closeOnce = True, m_closed = True, m_err = None\<rparr> = Some 1
   \<and> m_peer (fst (acceptOnce hosted (Inr 1) None)) \<noteq> m_peer hosted
   \<and> fst (acceptOnce hosted (Inr 1) None) = hosted\<lparr>m_peer := Some (newPeer 1)\<rparr>"
proof -
  have h1: "m_listener accepted_host = Some 7"
    by (simp add: accepted_host_eq)
  have h2: "m_peer accepted_host \<noteq> None"
    by (simp add: accepted_host_eq)
  have h3: "bound_conn accepted_host = Some 1"
    by (simp add: accepted_host_eq bound_conn_def newPeer_def)
  have h4: "m_peer (fst (acceptOnce hosted (Inr 1) None)) \<noteq> m_peer hosted"
    using accepted_host_eq by (simp add: accepted_host_def hosted_def newManager_def)
  have late: "(m_listener accepted_host \<noteq> None \<longrightarrow>
            accept_attempts (snd (acceptOnce accepted_host (Inr 2) None)) = 1)
      \<and> (\<forall>l c. m_listener accepted_host = Some l
              \<and> (m_peer accepted_host \<noteq> None \<or> m_closed accepted_host) \<longrightarrow>
            acceptOnce accepted_host (Inr c) None =
              (accepted_host, [ListenerAccept l, ConnClose c, ListenerClose l]))
      \<and> (\<forall>calls m' k. lifetime accepted_host calls = Inr m' \<and> bound_conn accepted_host = Some k \<longrightarrow>
            bound_conn m' = Some k)"
    using acceptOnce_binds_at_most_one_peer [of accepted_host "Inr 2" None]
    by (elim conjE) (intro conjI)
  then have life: "bound_conn \<lparr>m_peer = Some (closed_peer\<lparr>sendCh := [snapshot 1]\<rparr>),
      m_listener = None, m_closeOnce = True, m_closed = True, m_err = None\<rparr> = Some 1"
    using lifetime_accepted_host h3 by blast
  have "m_peer (fst (acceptOnce hosted (Inr 1) None)) \<noteq> m_peer hosted \<longrightarrow>
        m_peer hosted = None \<and> \<not> m_closed hosted
        \<and> (\<exists>c. (Inr 1 :: error + nat) = Inr c
               \<and> fst (acceptOnce hosted (Inr 1) None) = hosted\<lparr>m_peer := Some (newPeer c)\<rparr>)"
    using acceptOnce_binds_at_most_one_peer [of hosted "Inr 1" None]
    by (elim conjE)
  then have bind: "fst (acceptOnce hosted (Inr 1) None) = hosted\<lparr>m_peer := Some (newPeer 1)\<rparr>"
    using h4 by auto
  show ?thesis
    using late life bind h1 h2 h3 h4 by (simp add: accept_attempts_def)
qed

text \<open>
  C7, as stated, fails on "exactly one accept attempt". \<open>Host\<close> returns the Manager and
  the owner closes it before the accept task has read the listener: the task finds no
  listener and returns without calling \<^verbatim>\<open>Accept\<close>.
\<close>

theorem acceptOnce_after_Close_counterexample:
  "Host (Inr 7) = Inr hosted
   \<and> m_listener (fst (snd (Close hosted None None))) = None
   \<and> accept_attempts (snd (acceptOnce (fst (snd (Close hosted None None))) (Inr 1) None)) = 0"
  by (simp add: Host_def hosted_def Close_def newManager_def swapListener_def getPeer_def
      acceptOnce_def getListener_def accept_attempts_def)

section \<open>The inbound reader\<close>

lemma readLoop_Decoded:
  "readLoop p (map Decoded msgs @ ds) cres =
     readLoop (if msgs = [] then p else p\<lparr>latest := last msgs, hasData := True\<rparr>) ds cres"
proof (induction msgs arbitrary: p)
  case Nil
  then show ?case by simp
next
  case (Cons a msgs)
  then show ?case by (cases msgs) simp_all
qed

text \<open>
  C8 (as amended). Take a peer whose \<^verbatim>\<open>sync.Once\<close> has run only if its \<^verbatim>\<open>closed\<close>
  channel is closed, as \<open>peer_close\<close> leaves it. When the reader, after any number of
  decoded snapshots, meets a decode failure, the peer is closed afterwards (the connection
  is closed unless it was already), and the failure goes to the write-once sticky error: with no fault recorded before, a
  failure that is not a clean stream end becomes the sticky error as it is, and a clean
  stream end becomes the sentinel \<open>EOF\<close>; a fault recorded before stays. The two recorded
  values are told apart by \<open>errors_Is x EOF\<close>.
\<close>

theorem readLoop_failure_recorded:
  assumes "closeFn p \<longrightarrow> closed p"
  shows "case readLoop p (map Decoded msgs @ DecodeFail e # rest) cres of
     (p', ev) \<Rightarrow>
       closed p' \<and> closeFn p'
     \<and> getErr p' = first_fault [getErr p, Some (if errors_Is e EOF then EOF else e)]
     \<and> (getErr p = None \<and> \<not> errors_Is e EOF \<longrightarrow> getErr p' = Some e)
     \<and> (getErr p = None \<and> errors_Is e EOF \<longrightarrow> getErr p' = Some EOF)
     \<and> (getErr p \<noteq> None \<longrightarrow> getErr p' = getErr p)
     \<and> (\<forall>x. getErr p = None \<and> getErr p' = Some x \<longrightarrow> errors_Is x EOF = errors_Is e EOF)
     \<and> ev = (if closeFn p then [] else [ConnClose (conn p)])"
  using assms
  by (cases "err p")
    (auto simp add: readLoop_Decoded peer_close_def setErr_def getErr_def)

lemma write_faulted_eq:
  "write_faulted =
     (newPeer 1)\<lparr>closeFn := True, closed := True, sendCh_closed := True,
                 err := Some (Fault ''broken pipe'')\<rparr>"
  by (simp add: write_faulted_def select_def recv_ready_def newPeer_def chan_recv_def
      setErr_def peer_close_def)

theorem readLoop_failure_recorded_witness:
  "\<not> closeFn (newPeer 1) \<and> getErr (newPeer 1) = None
   \<and> errors_Is (Wrap ''read tcp'' EOF) EOF
   \<and> closed (fst (readLoop (newPeer 1)
        [Decoded (snapshot 1), Decoded (snapshot 2), DecodeFail (Wrap ''read tcp'' EOF)] None))
   \<and> getErr (fst (readLoop (newPeer 1)
        [Decoded (snapshot 1), Decoded (snapshot 2), DecodeFail (Wrap ''read tcp'' EOF)] None)) =
       Some EOF
   \<and> \<not> errors_Is (Fault ''unexpected end of JSON input'') EOF
   \<and> getErr (fst (readLoop (newPeer 1)
        [DecodeFail (Fault ''unexpected end of JSON input'')] None)) =
       Some (Fault ''unexpected end of JSON input'')
   \<and> closeFn write_faulted \<and> closed write_faulted \<and> getErr write_faulted \<noteq> None
   \<and> getErr (fst (readLoop write_faulted [DecodeFail EOF] None)) = getErr write_faulted"
proof -
  have h1: "closeFn (newPeer 1) \<longrightarrow> closed (newPeer 1)"
    by (simp add: newPeer_def)
  have h2: "getErr (newPeer 1) = None"
    by (simp add: newPeer_def getErr_def)
  have h3: "errors_Is (Wrap ''read tcp'' EOF) EOF"
    by simp
  have h4: "\<not> errors_Is (Fault ''unexpected end of JSON input'') EOF"
    by simp
  have w: "closeFn write_faulted" "closed write_faulted" "getErr write_faulted \<noteq> None"
    by (simp_all add: write_faulted_eq getErr_def)
  have h5: "closeFn write_faulted \<longrightarrow> closed write_faulted"
    using w by simp
  have l: "map Decoded [snapshot 1, snapshot 2] @ [DecodeFail (Wrap ''read tcp'' EOF)] =
      [Decoded (snapshot 1), Decoded (snapshot 2), DecodeFail (Wrap ''read tcp'' EOF)]"
    by simp
  obtain p1 ev1 where r1: "readLoop (newPeer 1)
        [Decoded (snapshot 1), Decoded (snapshot 2), DecodeFail (Wrap ''read tcp'' EOF)] None =
        (p1, ev1)"
    by (cases "readLoop (newPeer 1)
        [Decoded (snapshot 1), Decoded (snapshot 2), DecodeFail (Wrap ''read tcp'' EOF)] None") auto
  have ended: "closed p1 \<and> (getErr (newPeer 1) = None \<and> errors_Is (Wrap ''read tcp'' EOF) EOF \<longrightarrow>
      getErr p1 = Some EOF)"
    using readLoop_failure_recorded
            [OF h1, where msgs = "[snapshot 1, snapshot 2]" and e = "Wrap ''read tcp'' EOF"
               and rest = "[]" and cres = None]
    unfolding l r1 prod.case by (elim conjE) (intro conjI)
  obtain p2 ev2 where r2: "readLoop (newPeer 1)
        [DecodeFail (Fault ''unexpected end of JSON input'')] None = (p2, ev2)"
    by (cases "readLoop (newPeer 1) [DecodeFail (Fault ''unexpected end of JSON input'')] None")
      auto
  have fault: "getErr (newPeer 1) = None \<and> \<not> errors_Is (Fault ''unexpected end of JSON input'') EOF
      \<longrightarrow> getErr p2 = Some (Fault ''unexpected end of JSON input'')"
    using readLoop_failure_recorded
            [OF h1, where msgs = "[]" and e = "Fault ''unexpected end of JSON input''"
               and rest = "[]" and cres = None]
    unfolding list.map append_Nil r2 prod.case by (elim conjE)
  obtain p3 ev3 where r3: "readLoop write_faulted [DecodeFail EOF] None = (p3, ev3)"
    by (cases "readLoop write_faulted [DecodeFail EOF] None") auto
  have kept: "getErr write_faulted \<noteq> None \<longrightarrow> getErr p3 = getErr write_faulted"
    using readLoop_failure_recorded
            [OF h5, where msgs = "[]" and e = EOF and rest = "[]" and cres = None]
    unfolding list.map append_Nil r3 prod.case by (elim conjE)
  show ?thesis
    unfolding r1 r2 r3 using ended fault kept h2 h3 h4 w by (simp add: newPeer_def)
qed

text \<open>
  C8, as stated, fails. The writer fails first: it records \<open>broken pipe\<close> and closes the
  peer. The reader's \<^verbatim>\<open>Decode\<close> then fails on the closed connection, which is not a
  clean stream end, and this failure is not recorded: the sticky error stays
  \<open>broken pipe\<close>.
\<close>

theorem readLoop_after_write_fault_counterexample:
  "getErr write_faulted = Some (Fault ''broken pipe'')
   \<and> \<not> errors_Is (Wrap ''read tcp'' ErrClosed) EOF
   \<and> getErr (fst (readLoop write_faulted [DecodeFail (Wrap ''read tcp'' ErrClosed)] None)) =
       Some (Fault ''broken pipe'')
   \<and> getErr (fst (readLoop write_faulted [DecodeFail EOF] None)) = Some (Fault ''broken pipe'')"
  by (simp add: write_faulted_eq getErr_def setErr_def peer_close_def)

section \<open>\<open>send\<close> after \<open>close\<close>\<close>

lemma closed_peer_eq:
  "closed_peer = (newPeer 1)\<lparr>closeFn := True, closed := True, sendCh_closed := True\<rparr>"
  by (simp add: closed_peer_def peer_close_def newPeer_def)

lemma select_second_ready:
  "b1 \<Longrightarrow> b2 \<Longrightarrow> select (Suc 0) [(b1, x), (b2, y)] d = y"
  by (simp add: select_def)

text \<open>
  C9. After \<open>peer_close\<close> both the \<^verbatim>\<open>closed\<close> channel and the send channel are closed,
  so in the first \<^verbatim>\<open>select\<close> of \<open>send\<close> the receive from \<^verbatim>\<open>closed\<close> and the send on
  the closed channel can both proceed. When the runtime picks the send, the call panics
  instead of returning; \<open>Manager_Send\<close> on a Manager bound to that peer panics with it.
\<close>

theorem send_after_close_panics:
  "closed closed_peer \<and> sendCh_closed closed_peer
   \<and> send closed_peer (snapshot 1) (idle\<lparr>pick1 := 1\<rparr>) = Inl SendOnClosedChannel
   \<and> Manager_Send (Some (newManager (Some closed_peer))) (snapshot 1) (idle\<lparr>pick1 := 1\<rparr>) =
       Inl SendOnClosedChannel"
proof -
  have c: "closed closed_peer" "sendCh_closed closed_peer"
    by (simp_all add: closed_peer_eq)
  have s: "send closed_peer state (idle\<lparr>pick1 := 1\<rparr>) = Inl SendOnClosedChannel" for state
    unfolding send_def using c
    by (simp add: select_second_ready send_ready_def send_done_def chan_send_def)
  show ?thesis
    using c s by (simp add: Manager_Send_def Send_def getPeer_def newManager_def)
qed

section \<open>The round trip over the wire\<close>

lemma player_keys:
  "key_is ''X'' ''X'' \<and> key_is ''Y'' ''Y'' \<and> key_is ''VelocityX'' ''VelocityX''
   \<and> key_is ''VelocityY'' ''VelocityY'' \<and> key_is ''OnGround'' ''OnGround''
   \<and> key_is ''FacingRight'' ''FacingRight''
   \<and> \<not> key_is ''Y'' ''X''
   \<and> \<not> key_is ''VelocityX'' ''X'' \<and> \<not> key_is ''VelocityX'' ''Y''
   \<and> \<not> key_is ''VelocityY'' ''X'' \<and> \<not> key_is ''VelocityY'' ''Y''
   \<and> \<not> key_is ''VelocityY'' ''VelocityX''
   \<and> \<not> key_is ''OnGround'' ''X'' \<and> \<not> key_is ''OnGround'' ''Y''
   \<and> \<not> key_is ''OnGround'' ''VelocityX'' \<and> \<not> key_is ''OnGround'' ''VelocityY''
   \<and> \<not> key_is ''FacingRight'' ''X'' \<and> \<not> key_is ''FacingRight'' ''Y''
   \<and> \<not> key_is ''FacingRight'' ''VelocityX'' \<and> \<not> key_is ''FacingRight'' ''VelocityY''
   \<and> \<not> key_is ''FacingRight'' ''OnGround''"
  by code_simp

lemma record_keys:
  "key_is ''Player'' ''Player'' \<and> key_is ''Bullets'' ''Bullets''
   \<and> \<not> key_is ''Bullets'' ''Player''"
  by code_simp

lemma encode_PlayerState_finite:
  assumes "finite_PlayerState ps"
  shows "encode_PlayerState ps =
           Inr (JObject [(''X'', JNumber (X ps)), (''Y'', JNumber (Y ps)),
                         (''VelocityX'', JNumber (VelocityX ps)),
                         (''VelocityY'', JNumber (VelocityY ps)),
                         (''OnGround'', JBool (OnGround ps)),
                         (''FacingRight'', JBool (FacingRight ps))])"
  using assms by (simp add: finite_PlayerState_def encode_PlayerState_def encode_float_def)

lemma encode_PlayerState_not_finite:
  assumes "\<not> finite_PlayerState ps"
  shows "\<exists>e. encode_PlayerState ps = Inl e"
  using assms
  by (auto simp add: finite_PlayerState_def encode_PlayerState_def encode_float_def)

lemma decode_PlayerState_encoded:
  "decode_PlayerState
     (JObject [(''X'', JNumber (X ps)), (''Y'', JNumber (Y ps)),
               (''VelocityX'', JNumber (VelocityX ps)),
               (''VelocityY'', JNumber (VelocityY ps)),
               (''OnGround'', JBool (OnGround ps)),
               (''FacingRight'', JBool (FacingRight ps))]) old = Inr ps"
  by (simp add: player_keys)

lemma encode_BulletState_finite:
  assumes "finite_BulletState b"
  shows "encode_BulletState b =
           Inr (JObject [(''X'', JNumber (bullet_X b)), (''Y'', JNumber (bullet_Y b)),
                         (''VelocityX'', JNumber (bullet_VelocityX b))])"
  using assms by (simp add: finite_BulletState_def encode_BulletState_def encode_float_def)

lemma encode_BulletState_not_finite:
  assumes "\<not> finite_BulletState b"
  shows "\<exists>e. encode_BulletState b = Inl e"
  using assms
  by (auto simp add: finite_BulletState_def encode_BulletState_def encode_float_def)

lemma decode_BulletState_encoded:
  "decode_BulletState
     (JObject [(''X'', JNumber (bullet_X b)), (''Y'', JNumber (bullet_Y b)),
               (''VelocityX'', JNumber (bullet_VelocityX b))]) old = Inr b"
  by (simp add: player_keys)

lemma Bullets_round_trip:
  assumes "list_all finite_BulletState bs"
  shows "\<exists>js. encode_Bullets bs = Inr js \<and> length js = length bs
            \<and> decode_Bullets_elems js = Inr bs"
  using assms
proof (induction bs)
  case Nil
  then show ?case by simp
next
  case (Cons b bs)
  then obtain js where js: "encode_Bullets bs = Inr js" "length js = length bs"
      "decode_Bullets_elems js = Inr bs"
    by auto
  from Cons.prems have "finite_BulletState b" by simp
  then show ?case
    using js
    by (simp add: encode_BulletState_finite decode_BulletState_encoded
        del: decode_BulletState.simps)
qed

lemma encode_Bullets_not_finite:
  assumes "\<not> list_all finite_BulletState bs"
  shows "\<exists>e. encode_Bullets bs = Inl e"
  using assms
proof (induction bs)
  case Nil
  then show ?case by simp
next
  case (Cons b bs)
  show ?case
  proof (cases "finite_BulletState b")
    case True
    with Cons show ?thesis
      by (auto simp add: encode_BulletState_finite)
  next
    case False
    from encode_BulletState_not_finite [OF this] show ?thesis by auto
  qed
qed

lemma Encode_Decode:
  assumes "encodable msg"
  shows "\<exists>j. Encode msg = Inr j \<and> Decode j = Inr msg"
proof -
  from assms have p: "finite_PlayerState (Player msg)"
    and b: "list_all finite_BulletState (Bullets msg)"
    by (simp_all add: encodable_def)
  from Bullets_round_trip [OF b] obtain js where js: "encode_Bullets (Bullets msg) = Inr js"
      "decode_Bullets_elems js = Inr (Bullets msg)"
    by auto
  show ?thesis
    using js
    by (simp add: Encode_def encode_PlayerState_finite [OF p] record_keys
        decode_PlayerState_encoded del: decode_PlayerState.simps)
qed

lemma Encode_not_encodable:
  assumes "\<not> encodable msg"
  shows "\<exists>e. Encode msg = Inl e"
proof (cases "finite_PlayerState (Player msg)")
  case True
  with assms have "\<not> list_all finite_BulletState (Bullets msg)"
    by (simp add: encodable_def)
  from encode_Bullets_not_finite [OF this] show ?thesis
    by (auto simp add: Encode_def encode_PlayerState_finite [OF True])
next
  case False
  from encode_PlayerState_not_finite [OF this] show ?thesis
    by (auto simp add: Encode_def)
qed

lemma written_encodable:
  assumes "list_all encodable msgs"
  shows "map decode_record (written msgs) = map Decoded msgs"
  using assms
proof (induction msgs)
  case Nil
  then show ?case by simp
next
  case (Cons msg msgs)
  then have "encodable msg" by simp
  from Encode_Decode [OF this] obtain j where "Encode msg = Inr j" "Decode j = Inr msg"
    by auto
  then show ?case
    using Cons by (simp add: decode_record_def)
qed

lemma readLoop_all_Decoded:
  "msgs \<noteq> [] \<Longrightarrow>
     readLoop p (map Decoded msgs) cres = (p\<lparr>latest := last msgs, hasData := True\<rparr>, [])"
  using readLoop_Decoded [of p msgs "[]" cres] by simp

lemma encode_outcome_encodable: "encode_outcome msg = None \<longleftrightarrow> encodable msg"
proof (cases "encodable msg")
  case True
  from Encode_Decode [OF this] show ?thesis
    using True by (auto simp add: encode_outcome_def)
next
  case False
  from Encode_not_encodable [OF this] show ?thesis
    using False by (auto simp add: encode_outcome_def)
qed

lemma zip_encode_outcome:
  assumes "list_all encodable msgs" and "length picks = length msgs"
  shows "zip picks (map encode_outcome msgs) = map (\<lambda>k. (k, None)) picks"
  using assms
proof (induction msgs arbitrary: picks)
  case Nil
  then show ?case by simp
next
  case (Cons msg msgs)
  then obtain k ks where picks: "picks = k # ks"
    by (cases picks) auto
  from Cons.prems have "encode_outcome msg = None"
    by (simp add: encode_outcome_encodable)
  then show ?case
    using Cons picks by simp
qed

lemma writeLoop_encodable:
  assumes "\<not> closed q" and "list_all encodable (sendCh q)"
    and "length picks = length (sendCh q)"
  shows "writeLoop q (zip picks (map encode_outcome (sendCh q))) cres =
           (q\<lparr>sendCh := []\<rparr>, sendCh q, [])"
  using writeLoop_takes [of q picks cres] assms
  by (simp add: zip_encode_outcome writer_takes_def)

text \<open>
  C3 (as amended). For every snapshot whose coordinates are all finite (no NaN, no
  infinity), with any player state and any bullet list, empty or not, \<open>Encode\<close> gives a
  record and \<open>Decode\<close> of that record gives the snapshot back, equal in every field: the
  coordinates bit for bit, both booleans, and the bullets in number and order. A snapshot
  with a coordinate that is not finite is not encoded at all. On the two loops: a writer
  whose queue holds such snapshots writes them all, and a reader that decodes the records
  written for them ends with the last one as its latest state.
\<close>

theorem Encode_Decode_round_trip:
  "(encodable msg \<longrightarrow> (\<exists>j. Encode msg = Inr j \<and> Decode j = Inr msg))
   \<and> (\<not> encodable msg \<longrightarrow> (\<exists>e. Encode msg = Inl e))
   \<and> (\<not> closed q \<and> list_all encodable (sendCh q) \<and> length picks = length (sendCh q) \<longrightarrow>
        writeLoop q (zip picks (map encode_outcome (sendCh q))) cres =
          (q\<lparr>sendCh := []\<rparr>, sendCh q, []))
   \<and> (list_all encodable msgs \<and> msgs \<noteq> [] \<longrightarrow>
        map decode_record (written msgs) = map Decoded msgs
        \<and> latestState (fst (readLoop p (map decode_record (written msgs)) cres)) =
            (last msgs, True))"
proof -
  have a: "encodable msg \<longrightarrow> (\<exists>j. Encode msg = Inr j \<and> Decode j = Inr msg)"
    using Encode_Decode [of msg] by blast
  have b: "\<not> encodable msg \<longrightarrow> (\<exists>e. Encode msg = Inl e)"
    using Encode_not_encodable [of msg] by blast
  have c: "\<not> closed q \<and> list_all encodable (sendCh q) \<and> length picks = length (sendCh q) \<longrightarrow>
        writeLoop q (zip picks (map encode_outcome (sendCh q))) cres =
          (q\<lparr>sendCh := []\<rparr>, sendCh q, [])"
    using writeLoop_encodable [of q picks cres] by blast
  have d: "list_all encodable msgs \<and> msgs \<noteq> [] \<longrightarrow>
        map decode_record (written msgs) = map Decoded msgs
        \<and> latestState (fst (readLoop p (map decode_record (written msgs)) cres)) =
            (last msgs, True)"
    by (simp add: written_encodable readLoop_all_Decoded latestState_def)
  show ?thesis
    using a b c d by (intro conjI)
qed

lemma encodable_sample: "encodable sample_snapshot"
  by (simp add: encodable_def sample_snapshot_def finite_PlayerState_def
      finite_BulletState_def is_finite_def)

lemma encodable_snapshot_1: "encodable (snapshot 1)"
  by (simp add: encodable_def snapshot_def finite_PlayerState_def zero_PlayerState_def
      is_finite_def)

lemma not_encodable_nan: "\<not> encodable nan_snapshot"
  by (simp add: encodable_def nan_snapshot_def finite_PlayerState_def zero_PlayerState_def
      is_finite_def)

theorem Encode_Decode_round_trip_witness:
  "encodable sample_snapshot
   \<and> length (Bullets sample_snapshot) = 2
   \<and> (\<exists>j. Encode sample_snapshot = Inr j \<and> Decode j = Inr sample_snapshot)
   \<and> \<not> encodable nan_snapshot
   \<and> (\<exists>e. Encode nan_snapshot = Inl e)
   \<and> list_all encodable [snapshot 1, sample_snapshot]
   \<and> writeLoop ((newPeer 2)\<lparr>sendCh := [snapshot 1, sample_snapshot]\<rparr>)
        (zip [0, 0] (map encode_outcome [snapshot 1, sample_snapshot])) None =
       ((newPeer 2)\<lparr>sendCh := []\<rparr>, [snapshot 1, sample_snapshot], [])
   \<and> latestState (fst (readLoop (newPeer 2)
        (map decode_record (written [snapshot 1, sample_snapshot])) None)) =
       (sample_snapshot, True)"
proof -
  let ?q = "(newPeer 2)\<lparr>sendCh := [snapshot 1, sample_snapshot]\<rparr>"
  have h1: "encodable sample_snapshot"
    by (rule encodable_sample)
  have h2: "list_all encodable [snapshot 1, sample_snapshot]"
    using encodable_sample encodable_snapshot_1 by (simp del: One_nat_def)
  have h3: "[snapshot 1, sample_snapshot] \<noteq> []"
    by simp
  have h4: "\<not> encodable nan_snapshot"
    by (rule not_encodable_nan)
  have n: "length (Bullets sample_snapshot) = 2"
    by (simp add: sample_snapshot_def)
  have sq: "sendCh ?q = [snapshot 1, sample_snapshot]"
    by simp
  have q0: "?q\<lparr>sendCh := []\<rparr> = (newPeer 2)\<lparr>sendCh := []\<rparr>"
    by simp
  have h5: "\<not> closed ?q"
    by (simp add: newPeer_def)
  have h6: "length [0, 0 :: nat] = length [snapshot 1, sample_snapshot]"
    by simp
  have inst: "(encodable sample_snapshot \<longrightarrow>
          (\<exists>j. Encode sample_snapshot = Inr j \<and> Decode j = Inr sample_snapshot))
      \<and> (\<not> closed ?q \<and> list_all encodable (sendCh ?q) \<and> length [0, 0 :: nat] = length (sendCh ?q) \<longrightarrow>
          writeLoop ?q (zip [0, 0] (map encode_outcome (sendCh ?q))) None =
            (?q\<lparr>sendCh := []\<rparr>, sendCh ?q, []))
      \<and> (list_all encodable [snapshot 1, sample_snapshot] \<and> [snapshot 1, sample_snapshot] \<noteq> [] \<longrightarrow>
          map decode_record (written [snapshot 1, sample_snapshot]) =
            map Decoded [snapshot 1, sample_snapshot]
          \<and> latestState (fst (readLoop (newPeer 2)
               (map decode_record (written [snapshot 1, sample_snapshot])) None)) =
              (last [snapshot 1, sample_snapshot], True))"
    using Encode_Decode_round_trip
            [where msg = sample_snapshot and q = ?q and picks = "[0, 0]"
               and msgs = "[snapshot 1, sample_snapshot]" and p = "newPeer 2" and cres = None]
    by (elim conjE) (intro conjI)
  have r1: "\<exists>j. Encode sample_snapshot = Inr j \<and> Decode j = Inr sample_snapshot"
    using inst h1 by blast
  have r2: "writeLoop ?q (zip [0, 0] (map encode_outcome [snapshot 1, sample_snapshot])) None =
       ((newPeer 2)\<lparr>sendCh := []\<rparr>, [snapshot 1, sample_snapshot], [])"
    using inst h5 h2 h6 unfolding sq q0 by blast
  have r3: "latestState (fst (readLoop (newPeer 2)
        (map decode_record (written [snapshot 1, sample_snapshot])) None)) =
       (last [snapshot 1, sample_snapshot], True)"
    using inst h2 h3 by blast
  have l: "last [snapshot 1, sample_snapshot] = sample_snapshot"
    by simp
  have "\<not> encodable nan_snapshot \<longrightarrow> (\<exists>e. Encode nan_snapshot = Inl e)"
    using Encode_Decode_round_trip
            [where msg = nan_snapshot and q = ?q and picks = "[0, 0]"
               and msgs = "[snapshot 1, sample_snapshot]" and p = "newPeer 2" and cres = None]
    by (elim conjE)
  then have r4: "\<exists>e. Encode nan_snapshot = Inl e"
    using h4 by blast
  show ?thesis
    using h1 n r1 h4 r4 h2 r2 r3 unfolding l by (intro conjI)
qed

text \<open>
  C3, as stated, fails. A snapshot whose first coordinate is a NaN is a
  \<^verbatim>\<open>StateMessage\<close> like any other, and it is not encoded: the encoder refuses the value,
  nothing is written, and the writer records the failure and closes the peer.
\<close>

theorem Encode_NaN_counterexample:
  "\<not> is_finite (X (Player nan_snapshot))
   \<and> Encode nan_snapshot = Inl (Fault ''json: unsupported value: NaN'')
   \<and> written [nan_snapshot] = []
   \<and> writeLoop ((newPeer 1)\<lparr>sendCh := [nan_snapshot]\<rparr>)
        [(0, encode_outcome nan_snapshot)] None =
       ((newPeer 1)\<lparr>closeFn := True, closed := True, sendCh_closed := True,
                    err := Some (Fault ''json: unsupported value: NaN'')\<rparr>,
        [], [ConnClose 1])"
proof -
  have f: "\<not> is_finite (X (Player nan_snapshot))"
    by (simp add: nan_snapshot_def zero_PlayerState_def is_finite_def)
  have e: "Encode nan_snapshot = Inl (Fault ''json: unsupported value: NaN'')"
    by (simp add: Encode_def encode_PlayerState_def encode_float_def nan_snapshot_def
        zero_PlayerState_def is_finite_def unsupported_value_def)
  have w: "writeLoop ((newPeer 1)\<lparr>sendCh := [nan_snapshot]\<rparr>)
        [(0, Some (Fault ''json: unsupported value: NaN''))] None =
       ((newPeer 1)\<lparr>closeFn := True, closed := True, sendCh_closed := True,
                    err := Some (Fault ''json: unsupported value: NaN'')\<rparr>,
        [], [ConnClose 1])"
    by (simp add: select_def recv_ready_def newPeer_def chan_recv_def setErr_def
        peer_close_def)
  show ?thesis
    using f e w by (simp add: encode_outcome_def)
qed

end
